theory Spec2Isabelle
  imports Main "HOL-Library.Multiset"
begin

section \<open>The file system the recorder works on\<close>

text \<open>
  The marker store (\<^verbatim>\<open>internal/attributes/fileattributes.go\<close>) and the retention
  pass of \<^verbatim>\<open>main.go\<close> reach the disk through five system calls: reading a directory,
  \<^verbatim>\<open>stat\<close>, \<^verbatim>\<open>unlink\<close> and the three extended-attribute calls. The state they act on
  is one flat directory (the recordings directory): its listing, and the files found
  under their full paths. A listed name with no file under its path is an entry whose
  \<^verbatim>\<open>stat\<close> fails (a dangling link).
\<close>

datatype errno = ENOENT | ENODATA | ERANGE | EPERM

datatype node_kind = Regular | Directory | Special

record node =
  n_kind :: node_kind
  n_modtime :: int
  n_xattrs :: "string \<rightharpoonup> string"
  n_undeletable :: bool

record dirent =
  d_name :: string
  d_isdir :: bool

record filesys =
  fs_dir :: string
  fs_listing :: "dirent list"
  fs_nodes :: "string \<rightharpoonup> node"

text \<open>The errors the Go code builds with \<^verbatim>\<open>fmt.Errorf\<close>, one constructor per message.\<close>

datatype error =
    SetXattrError errno
  | GetXattrError errno
  | RemoveXattrError errno
  | ReadDirError errno
  | MkdirError
  | StartError
  | RecorderFailed

subsection \<open>Library: \<^verbatim>\<open>filepath.Join\<close>\<close>

text \<open>
  \<^verbatim>\<open>filepath.Join\<close> drops leading empty elements, joins the rest with a slash and
  cleans the result lexically: empty and \<^verbatim>\<open>.\<close> elements go, a \<^verbatim>\<open>..\<close> takes the
  element before it with it, and the empty result is \<^verbatim>\<open>.\<close>.
\<close>

fun split_path :: "string \<Rightarrow> string list" where
  "split_path [] = [[]]"
| "split_path (c # cs) =
     (if c = CHR ''/'' then [] # split_path cs
      else (case split_path cs of [] \<Rightarrow> [[c]] | w # ws \<Rightarrow> (c # w) # ws))"

fun clean_elems :: "bool \<Rightarrow> string list \<Rightarrow> string list \<Rightarrow> string list" where
  "clean_elems rooted [] out = rev out"
| "clean_elems rooted (e # es) out =
     (if e = [] \<or> e = ''.'' then clean_elems rooted es out
      else if e = ''..'' then
        (case out of
           [] \<Rightarrow> if rooted then clean_elems rooted es [] else clean_elems rooted es [''..'']
         | e0 # rest \<Rightarrow>
             if e0 = ''..'' then clean_elems rooted es (''..'' # out)
             else clean_elems rooted es rest)
      else clean_elems rooted es (e # out))"

fun join_slash :: "string list \<Rightarrow> string" where
  "join_slash [] = []"
| "join_slash [e] = e"
| "join_slash (e # f # es) = e @ ''/'' @ join_slash (f # es)"

definition Clean :: "string \<Rightarrow> string" where
  "Clean path =
     (if path = [] then ''.''
      else
        let rooted = (hd path = CHR ''/'');
            body = join_slash (clean_elems rooted (split_path path) []);
            out = (if rooted then CHR ''/'' # body else body)
        in if out = [] then ''.'' else out)"

definition filepath_Join :: "string \<Rightarrow> string \<Rightarrow> string" where
  "filepath_Join a b =
     (if a \<noteq> [] then Clean (a @ ''/'' @ b)
      else if b \<noteq> [] then Clean b
      else [])"

subsection \<open>System calls\<close>

definition ReadDir :: "filesys \<Rightarrow> string \<Rightarrow> errno + dirent list" where
  "ReadDir fs directory =
     (if directory = fs_dir fs then Inr (fs_listing fs) else Inl ENOENT)"

definition Stat :: "filesys \<Rightarrow> string \<Rightarrow> errno + node" where
  "Stat fs path = (case fs_nodes fs path of None \<Rightarrow> Inl ENOENT | Some n \<Rightarrow> Inr n)"

definition IsRegular :: "node \<Rightarrow> bool" where
  "IsRegular info = (n_kind info = Regular)"

text \<open>
  \<^verbatim>\<open>getxattr(path, name, buf, size)\<close>: the size of the value and the bytes written
  to the buffer. A value longer than a non-empty buffer is \<^verbatim>\<open>ERANGE\<close>; with an empty
  buffer the call only reports the size.
\<close>

definition Getxattr :: "filesys \<Rightarrow> string \<Rightarrow> string \<Rightarrow> nat \<Rightarrow> errno + (nat \<times> string)" where
  "Getxattr fs path attr bufsize =
     (case fs_nodes fs path of
        None \<Rightarrow> Inl ENOENT
      | Some n \<Rightarrow>
          (case n_xattrs n attr of
             None \<Rightarrow> Inl ENODATA
           | Some v \<Rightarrow>
               if bufsize = 0 then Inr (length v, [])
               else if bufsize < length v then Inl ERANGE
               else Inr (length v, v)))"

definition Setxattr :: "filesys \<Rightarrow> string \<Rightarrow> string \<Rightarrow> string \<Rightarrow> filesys \<times> errno option" where
  "Setxattr fs path attr v =
     (case fs_nodes fs path of
        None \<Rightarrow> (fs, Some ENOENT)
      | Some n \<Rightarrow>
          (fs\<lparr>fs_nodes := (fs_nodes fs)(path \<mapsto> n\<lparr>n_xattrs := (n_xattrs n)(attr \<mapsto> v)\<rparr>)\<rparr>,
           None))"

definition Removexattr :: "filesys \<Rightarrow> string \<Rightarrow> string \<Rightarrow> filesys \<times> errno option" where
  "Removexattr fs path attr =
     (case fs_nodes fs path of
        None \<Rightarrow> (fs, Some ENOENT)
      | Some n \<Rightarrow>
          (case n_xattrs n attr of
             None \<Rightarrow> (fs, Some ENODATA)
           | Some v \<Rightarrow>
               (fs\<lparr>fs_nodes := (fs_nodes fs)(path \<mapsto> n\<lparr>n_xattrs := (n_xattrs n)(attr := None)\<rparr>)\<rparr>,
                None)))"

text \<open>
  \<^verbatim>\<open>os.Remove\<close>: the file goes, with its name in the listing; a missing file and a
  file the system refuses to unlink are errors that leave the state as it was.
\<close>

definition Remove :: "filesys \<Rightarrow> string \<Rightarrow> filesys \<times> errno option" where
  "Remove fs path =
     (case fs_nodes fs path of
        None \<Rightarrow> (fs, Some ENOENT)
      | Some n \<Rightarrow>
          if n_undeletable n then (fs, Some EPERM)
          else
            (fs\<lparr>fs_listing := filter (\<lambda>e. filepath_Join (fs_dir fs) (d_name e) \<noteq> path) (fs_listing fs),
                fs_nodes := (fs_nodes fs)(path := None)\<rparr>,
             None))"

section \<open>The marker store: operations\<close>

text \<open>
  The file \<^verbatim>\<open>fileattributes.go\<close> holds the package twice. The first copy (lines 1 to
  106) is the one modelled; the second differs in \<^verbatim>\<open>HasMarker\<close>, which there reads
  the attribute into a one-byte buffer first.
\<close>

definition SetMarker :: "filesys \<Rightarrow> string \<Rightarrow> string \<Rightarrow> string \<Rightarrow> filesys \<times> error option" where
  "SetMarker fs filePath attrName attrValue =
     (let fullAttrName = ''user.'' @ attrName in
      case Setxattr fs filePath fullAttrName attrValue of
        (fs', Some err) \<Rightarrow> (fs', Some (SetXattrError err))
      | (fs', None) \<Rightarrow> (fs', None))"

definition GetMarker :: "filesys \<Rightarrow> string \<Rightarrow> string \<Rightarrow> string \<times> error option" where
  "GetMarker fs filePath attrName =
     (let fullAttrName = ''user.'' @ attrName in
      case Getxattr fs filePath fullAttrName 256 of
        Inl err \<Rightarrow> if err = ENODATA then ([], None) else ([], Some (GetXattrError err))
      | Inr (sz, data) \<Rightarrow> (take sz data, None))"

definition RemoveMarker :: "filesys \<Rightarrow> string \<Rightarrow> string \<Rightarrow> filesys \<times> error option" where
  "RemoveMarker fs filePath attrName =
     (let fullAttrName = ''user.'' @ attrName in
      case Removexattr fs filePath fullAttrName of
        (fs', Some err) \<Rightarrow>
          if err = ENODATA then (fs', None) else (fs', Some (RemoveXattrError err))
      | (fs', None) \<Rightarrow> (fs', None))"

definition HasMarker :: "filesys \<Rightarrow> string \<Rightarrow> string \<Rightarrow> bool \<times> error option" where
  "HasMarker fs filePath attrName =
     (let fullAttrName = ''user.'' @ attrName in
      case Getxattr fs filePath fullAttrName 256 of
        Inl err \<Rightarrow> if err = ENODATA then (False, None) else (False, Some (GetXattrError err))
      | Inr (sz, valueData) \<Rightarrow> (0 < sz, None))"

text \<open>
  The loop of \<^verbatim>\<open>GetFilesWithMarker\<close> over the directory's entries, with the slice it
  appends to. Every \<^verbatim>\<open>continue\<close> of the source is a branch that goes on with the
  slice unchanged.
\<close>

fun scan_entries :: "filesys \<Rightarrow> string \<Rightarrow> string \<Rightarrow> dirent list \<Rightarrow> string list \<Rightarrow> string list" where
  "scan_entries fs directory attrName [] markedFiles = markedFiles"
| "scan_entries fs directory attrName (entry # entries) markedFiles =
     (if d_isdir entry then scan_entries fs directory attrName entries markedFiles
      else
        let filePath = filepath_Join directory (d_name entry) in
        case Stat fs filePath of
          Inl err \<Rightarrow> scan_entries fs directory attrName entries markedFiles
        | Inr fileInfo \<Rightarrow>
            if \<not> IsRegular fileInfo then scan_entries fs directory attrName entries markedFiles
            else
              (case HasMarker fs filePath attrName of
                 (hasAttr, Some err) \<Rightarrow> scan_entries fs directory attrName entries markedFiles
               | (hasAttr, None) \<Rightarrow>
                   if hasAttr
                   then scan_entries fs directory attrName entries (markedFiles @ [filePath])
                   else scan_entries fs directory attrName entries markedFiles))"

definition GetFilesWithMarker :: "filesys \<Rightarrow> string \<Rightarrow> string \<Rightarrow> error + string list" where
  "GetFilesWithMarker fs directory attrName =
     (case ReadDir fs directory of
        Inl err \<Rightarrow> Inl (ReadDirError err)
      | Inr entries \<Rightarrow> Inr (scan_entries fs directory attrName entries []))"


section \<open>Configuration and retention\<close>

record Config =
  RecordingsDir :: string
  MaxFiles :: int
  RecordingLength :: int
  Extension :: string
  Codec :: string
  RecordAudio :: bool

definition attributeMarkerName :: string where
  "attributeMarkerName = ''dashcam''"

definition attributeMarkerDefaultValue :: string where
  "attributeMarkerDefaultValue = ''standard_recording''"

text \<open>
  How a call ends: it returns, it panics (an index out of range), or it blocks for
  ever on a channel nobody sends on.
\<close>

datatype 'a outcome = Returned 'a | Panicked | Blocked

subsection \<open>Library: \<^verbatim>\<open>sort.Slice\<close>\<close>

text \<open>
  \<^verbatim>\<open>sort.Slice\<close> is the Go library's. On slices of up to twelve elements it is this
  insertion sort: each element moves left while \<^verbatim>\<open>less\<close> puts it before its left
  neighbour. The prefix already handled is kept reversed, so the left neighbour is the
  head. Longer slices go through a pattern-defeating quicksort, which returns the same
  slice whenever \<^verbatim>\<open>less\<close> is a strict total order on the elements; that is the only
  case the theorems below use.
\<close>

fun insert_back :: "('a \<Rightarrow> 'a \<Rightarrow> bool) \<Rightarrow> 'a \<Rightarrow> 'a list \<Rightarrow> 'a list" where
  "insert_back lessFn x [] = [x]"
| "insert_back lessFn x (y # rs) =
     (if lessFn x y then y # insert_back lessFn x rs else x # y # rs)"

definition sort_Slice :: "('a \<Rightarrow> 'a \<Rightarrow> bool) \<Rightarrow> 'a list \<Rightarrow> 'a list" where
  "sort_Slice lessFn xs = rev (foldl (\<lambda>rs x. insert_back lessFn x rs) [] xs)"

subsection \<open>\<^verbatim>\<open>cleanupOldFiles\<close>\<close>

text \<open>The closure handed to \<^verbatim>\<open>sort.Slice\<close>, on the two paths it stats.\<close>

definition modtime_less :: "filesys \<Rightarrow> string \<Rightarrow> string \<Rightarrow> bool" where
  "modtime_less fs a b =
     (case Stat fs a of
        Inl err1 \<Rightarrow> False
      | Inr info1 \<Rightarrow>
          (case Stat fs b of
             Inl err2 \<Rightarrow> False
           | Inr info2 \<Rightarrow> n_modtime info1 < n_modtime info2))"

text \<open>
  The removal loop \<^verbatim>\<open>for i := 0; i < filesToRemove; i++\<close>. It returns the state, the
  paths it handed to \<^verbatim>\<open>os.Remove\<close> (in order) and how it ended. A failed removal is
  logged and the loop goes on; \<^verbatim>\<open>files[i]\<close> past the end of the slice panics.
\<close>

function remove_loop ::
  "filesys \<Rightarrow> string list \<Rightarrow> nat \<Rightarrow> int \<Rightarrow> string list \<Rightarrow> filesys \<times> string list \<times> error option outcome"
where
  "remove_loop fs files i filesToRemove tried =
     (if int i < filesToRemove then
        (if i < length files then
           remove_loop (fst (Remove fs (files ! i))) files (Suc i) filesToRemove
             (tried @ [files ! i])
         else (fs, tried, Panicked))
      else (fs, tried, Returned None))"
  by pat_completeness auto
termination
  by (relation "measure (\<lambda>(fs, files, i, filesToRemove, tried). nat (filesToRemove - int i))") auto

declare remove_loop.simps [simp del]

text \<open>
  Go's \<^verbatim>\<open>int\<close> is 64 bits wide. \<^verbatim>\<open>len(files) - MaxFiles\<close> stays in range for every
  \<^verbatim>\<open>MaxFiles\<close> from 0 up (a slice has fewer than \<open>2^63\<close> elements), which is where the
  theorems on retention look; the model computes on \<open>int\<close>.
\<close>

definition cleanupOldFiles :: "Config \<Rightarrow> filesys \<Rightarrow> filesys \<times> string list \<times> error option outcome" where
  "cleanupOldFiles config fs =
     (case GetFilesWithMarker fs (RecordingsDir config) attributeMarkerName of
        Inl err \<Rightarrow> (fs, [], Returned (Some err))
      | Inr files \<Rightarrow>
          if int (length files) \<le> MaxFiles config then (fs, [], Returned None)
          else
            let sorted = sort_Slice (modtime_less fs) files;
                filesToRemove = int (length sorted) - MaxFiles config
            in remove_loop fs sorted 0 filesToRemove [])"

section \<open>File names\<close>

subsection \<open>Library: \<^verbatim>\<open>time.Time.Format\<close>\<close>

text \<open>
  The local time \<^verbatim>\<open>time.Now()\<close> returns, broken down into its fields (the month from
  1, the day of the year from 1).
\<close>

record gotime =
  t_year :: nat
  t_month :: nat
  t_day :: nat
  t_yday :: nat
  t_hour :: nat
  t_minute :: nat
  t_second :: nat

text \<open>
  \<^verbatim>\<open>Format\<close> reads a layout as text with pieces of the reference time
  \<^verbatim>\<open>01/02 03:04:05PM '06 -0700\<close> in it and writes the matching field of the time for
  each piece. \<open>chunk_at\<close> is the switch of the library's \<^verbatim>\<open>nextStdChunk\<close> on the
  character at hand, for the pieces that begin with a digit or an underscore. The pieces
  that begin with a letter, with \<^verbatim>\<open>-07\<close>, or with a point or comma before \<^verbatim>\<open>0\<close> or
  \<^verbatim>\<open>9\<close> (names of months and days, PM, zones, fractions of a second) are left out:
  the layout of \<^verbatim>\<open>generateFilename\<close> has none of them.
\<close>

datatype std =
    stdLongYear | stdYear | stdZeroMonth | stdNumMonth
  | stdZeroDay | stdUnderDay | stdDay | stdZeroYearDay | stdUnderYearDay
  | stdHour | stdZeroHour12 | stdHour12
  | stdZeroMinute | stdMinute | stdZeroSecond | stdSecond

definition digit_char :: "nat \<Rightarrow> char" where
  "digit_char d = char_of (48 + d)"

fun itoa :: "nat \<Rightarrow> string" where
  "itoa n = (if n < 10 then [digit_char n] else itoa (n div 10) @ [digit_char (n mod 10)])"

definition appendInt :: "nat \<Rightarrow> nat \<Rightarrow> string" where
  "appendInt x width = replicate (width - length (itoa x)) (CHR ''0'') @ itoa x"

definition has_prefix :: "string \<Rightarrow> string \<Rightarrow> bool" where
  "has_prefix p s = (take (length p) s = p)"

definition std0x :: "char \<Rightarrow> std option" where
  "std0x d =
     (if d = CHR ''1'' then Some stdZeroMonth
      else if d = CHR ''2'' then Some stdZeroDay
      else if d = CHR ''3'' then Some stdZeroHour12
      else if d = CHR ''4'' then Some stdZeroMinute
      else if d = CHR ''5'' then Some stdZeroSecond
      else if d = CHR ''6'' then Some stdYear
      else None)"

definition chunk_at :: "string \<Rightarrow> (string \<times> std \<times> nat) option" where
  "chunk_at layout =
     (case layout of
        [] \<Rightarrow> None
      | c # rest \<Rightarrow>
          if c = CHR ''0'' then
            (case (case rest of [] \<Rightarrow> None | d # r \<Rightarrow> std0x d) of
               Some s \<Rightarrow> Some ([], s, 2)
             | None \<Rightarrow> if has_prefix ''02'' rest then Some ([], stdZeroYearDay, 3) else None)
          else if c = CHR ''1'' then
            (if has_prefix ''5'' rest then Some ([], stdHour, 2) else Some ([], stdNumMonth, 1))
          else if c = CHR ''2'' then
            (if has_prefix ''2006'' layout then Some ([], stdLongYear, 4) else Some ([], stdDay, 1))
          else if c = CHR ''_'' then
            (if has_prefix ''2'' rest then
               (if has_prefix ''2006'' rest then Some (''_'', stdLongYear, 5)
                else Some ([], stdUnderDay, 2))
             else if has_prefix ''_2'' rest then Some ([], stdUnderYearDay, 3)
             else None)
          else if c = CHR ''3'' then Some ([], stdHour12, 1)
          else if c = CHR ''4'' then Some ([], stdMinute, 1)
          else if c = CHR ''5'' then Some ([], stdSecond, 1)
          else None)"

fun nextStdChunk :: "string \<Rightarrow> string \<times> std option \<times> string" where
  "nextStdChunk [] = ([], None, [])"
| "nextStdChunk (c # cs) =
     (case chunk_at (c # cs) of
        Some (lit, s, n) \<Rightarrow> (lit, Some s, drop n (c # cs))
      | None \<Rightarrow> (case nextStdChunk cs of (prefix, s, suffix) \<Rightarrow> (c # prefix, s, suffix)))"

definition hour12 :: "nat \<Rightarrow> nat" where
  "hour12 h = (if h mod 12 = 0 then 12 else h mod 12)"

definition pad_space :: "nat \<Rightarrow> string \<Rightarrow> string" where
  "pad_space width s = replicate (width - length s) (CHR '' '') @ s"

fun appendStd :: "gotime \<Rightarrow> std \<Rightarrow> string" where
  "appendStd t stdLongYear = appendInt (t_year t) 4"
| "appendStd t stdYear = appendInt (t_year t mod 100) 2"
| "appendStd t stdZeroMonth = appendInt (t_month t) 2"
| "appendStd t stdNumMonth = appendInt (t_month t) 0"
| "appendStd t stdZeroDay = appendInt (t_day t) 2"
| "appendStd t stdUnderDay = pad_space 2 (appendInt (t_day t) 0)"
| "appendStd t stdDay = appendInt (t_day t) 0"
| "appendStd t stdZeroYearDay = appendInt (t_yday t) 3"
| "appendStd t stdUnderYearDay = pad_space 3 (appendInt (t_yday t) 0)"
| "appendStd t stdHour = appendInt (t_hour t) 2"
| "appendStd t stdZeroHour12 = appendInt (hour12 (t_hour t)) 2"
| "appendStd t stdHour12 = appendInt (hour12 (t_hour t)) 0"
| "appendStd t stdZeroMinute = appendInt (t_minute t) 2"
| "appendStd t stdMinute = appendInt (t_minute t) 0"
| "appendStd t stdZeroSecond = appendInt (t_second t) 2"
| "appendStd t stdSecond = appendInt (t_second t) 0"

lemma chunk_at_pos: "chunk_at layout = Some (lit, s, n) \<Longrightarrow> 0 < n"
  by (auto simp: chunk_at_def split: list.splits if_splits option.splits)

lemma nextStdChunk_shorter:
  "nextStdChunk layout = (prefix, Some s, suffix) \<Longrightarrow> length suffix < length layout"
proof (induction layout arbitrary: prefix)
  case Nil
  then show ?case by simp
next
  case (Cons c cs)
  show ?case
  proof (cases "chunk_at (c # cs)")
    case None
    then obtain p where "nextStdChunk cs = (p, Some s, suffix)"
      using Cons.prems by (auto split: prod.splits)
    then show ?thesis using Cons.IH by fastforce
  next
    case (Some a)
    then obtain lit s' n where a: "a = (lit, s', n)" by (cases a) auto
    then have "0 < n" using Some chunk_at_pos by blast
    then show ?thesis using Cons.prems Some a by auto
  qed
qed

function format_layout :: "gotime \<Rightarrow> string \<Rightarrow> string" where
  "format_layout t layout =
     (if layout = [] then []
      else
        (case nextStdChunk layout of
           (prefix, None, suffix) \<Rightarrow> prefix
         | (prefix, Some s, suffix) \<Rightarrow> prefix @ appendStd t s @ format_layout t suffix))"
  by pat_completeness auto
termination
  by (relation "measure (\<lambda>(t, layout). length layout)") (auto dest: nextStdChunk_shorter[OF sym])

subsection \<open>\<^verbatim>\<open>generateFilename\<close>\<close>

definition generateFilename :: "Config \<Rightarrow> gotime \<Rightarrow> string" where
  "generateFilename config now =
     (let timestamp = format_layout now ''2025-01-02_15-35-05''
      in filepath_Join (RecordingsDir config) (timestamp @ Extension config))"


section \<open>The capture subprocess\<close>

text \<open>The argument vector \<^verbatim>\<open>recordScreen\<close> builds before it starts the command.\<close>

definition recordScreen_args :: "Config \<Rightarrow> string \<Rightarrow> string list" where
  "recordScreen_args config filename =
     [''wf-recorder'', ''-f'', filename]
     @ (if Codec config \<noteq> [] then [''-c'', Codec config] else [])
     @ (if \<not> RecordAudio config then [''-a''] else [])"

text \<open>
  \<^verbatim>\<open>recordScreen\<close> waits on channels: the timer against the exit of the process, then
  the exit against a timer of five seconds, then the exit alone. What arrives first is
  not the program's choice; \<open>proc_env\<close> holds it. \<open>exit_before_deadline\<close> is what
  \<^verbatim>\<open>cmd.Wait\<close> delivers when the process ends before the recording timer fires (and
  \<open>None\<close> when the timer is first), \<open>exit_in_grace\<close> what it delivers within five
  seconds of the stop request, \<open>exit_after_kill\<close> what it delivers after the kill;
  \<open>None\<close> there is a process whose end is never seen. The function returns what it did
  (\<open>action\<close>s, in order) and how it ended; \<open>Blocked\<close> is the receive on \<^verbatim>\<open>done\<close> that
  never returns. Log lines are not modelled.
\<close>

datatype wait_result = ExitOk | ExitError

record proc_env =
  start_fails :: bool
  exit_before_deadline :: "wait_result option"
  sigint_fails :: bool
  exit_in_grace :: "wait_result option"
  exit_after_kill :: "wait_result option"

datatype action =
    Spawn "string list"
  | StartTimer int
  | TimerFired
  | SendSIGINT
  | Kill
  | GraceExpired nat
  | Done wait_result

definition recordScreen ::
  "Config \<Rightarrow> string \<Rightarrow> int \<Rightarrow> proc_env \<Rightarrow> action list \<times> error option outcome"
where
  "recordScreen config filename duration env =
     (let cmd = recordScreen_args config filename in
      if start_fails env then ([Spawn cmd], Returned (Some StartError))
      else
        (case exit_before_deadline env of
           Some err \<Rightarrow>
             ([Spawn cmd, StartTimer duration, Done err],
              if err \<noteq> ExitOk then Returned (Some RecorderFailed) else Returned None)
         | None \<Rightarrow>
             let stopping =
                   [Spawn cmd, StartTimer duration, TimerFired, SendSIGINT]
                   @ (if sigint_fails env then [Kill] else [])
             in
               (case exit_in_grace env of
                  Some err \<Rightarrow> (stopping @ [Done err], Returned None)
                | None \<Rightarrow>
                    (case exit_after_kill env of
                       Some err \<Rightarrow> (stopping @ [GraceExpired 5, Kill, Done err], Returned None)
                     | None \<Rightarrow> (stopping @ [GraceExpired 5, Kill], Blocked)))))"

section \<open>The main loop\<close>

text \<open>
  One pass of the loop of \<^verbatim>\<open>Start\<close> reads four things from outside: whether a stop
  request is waiting on \<^verbatim>\<open>stopChan\<close>, the clock, the behaviour of the subprocess, and
  what happened on disk while the recording ran (\<open>capture\<close>: in the first place the
  file the recorder wrote). The loop runs for ever unless stopped, so \<open>run_loop\<close> takes
  the passes' inputs as a list and reports \<open>Continue\<close> when they are used up with the
  loop still running. The counter is on \<open>int\<close>; Go's wraps after \<open>2^63\<close> passes.
\<close>

record iter_env =
  stop_requested :: bool
  now :: gotime
  proc :: proc_env
  capture :: "filesys \<Rightarrow> filesys"

datatype event =
    Recorded string "action list"
  | RecordingFailed error
  | Slept nat
  | MarkerSet string string string "error option"
  | Cleanup "string list" "error option outcome"
  | Stopped

record sup_state =
  loopcounter :: int
  disk :: filesys

datatype control = Continue | Return "error option" | Hang | Panic

definition loop_body :: "Config \<Rightarrow> sup_state \<Rightarrow> iter_env \<Rightarrow> sup_state \<times> event list \<times> control" where
  "loop_body config st env =
     (let st1 = st\<lparr>loopcounter := loopcounter st + 1\<rparr> in
      if stop_requested env then (st1, [Stopped], Return None)
      else
        let filename = generateFilename config (now env);
            (acts, res) = recordScreen config filename (RecordingLength config) (proc env);
            st2 = st1\<lparr>disk := capture env (disk st1)\<rparr>
        in
          (case res of
             Blocked \<Rightarrow> (st2, [Recorded filename acts], Hang)
           | Panicked \<Rightarrow> (st2, [Recorded filename acts], Panic)
           | Returned (Some err) \<Rightarrow>
               (st2, [Recorded filename acts, RecordingFailed err, Slept 2], Continue)
           | Returned None \<Rightarrow>
               (case SetMarker (disk st2) filename attributeMarkerName attributeMarkerDefaultValue of
                  (fs3, merr) \<Rightarrow>
                    let marking =
                          [Recorded filename acts,
                           MarkerSet filename attributeMarkerName attributeMarkerDefaultValue merr]
                    in
                      if loopcounter st1 mod 10 = 0 then
                        (case cleanupOldFiles config fs3 of
                           (fs4, removed, cres) \<Rightarrow>
                             (st2\<lparr>disk := fs4\<rparr>, marking @ [Cleanup removed cres],
                              if cres = Panicked then Panic else Continue))
                      else (st2\<lparr>disk := fs3\<rparr>, marking, Continue))))"

fun run_loop :: "Config \<Rightarrow> sup_state \<Rightarrow> iter_env list \<Rightarrow> sup_state \<times> event list \<times> control" where
  "run_loop config st [] = (st, [], Continue)"
| "run_loop config st (env # envs) =
     (case loop_body config st env of
        (st', evs, Continue) \<Rightarrow>
          (case run_loop config st' envs of (st'', evs', c) \<Rightarrow> (st'', evs @ evs', c))
      | (st', evs, c) \<Rightarrow> (st', evs, c))"

definition Start :: "Config \<Rightarrow> bool \<Rightarrow> filesys \<Rightarrow> iter_env list \<Rightarrow> sup_state \<times> event list \<times> control" where
  "Start config mkdir_fails fs envs =
     (if mkdir_fails then (\<lparr>loopcounter = 0, disk = fs\<rparr>, [], Return (Some MkdirError))
      else run_loop config \<lparr>loopcounter = 0, disk = fs\<rparr> envs)"

section \<open>Vocabulary of the statements\<close>

text \<open>A path carries the marker: the attribute is there and its value is not empty.\<close>

definition marked :: "filesys \<Rightarrow> string \<Rightarrow> string \<Rightarrow> bool" where
  "marked fs path attrName =
     (case fs_nodes fs path of
        None \<Rightarrow> False
      | Some n \<Rightarrow>
          (case n_xattrs n (''user.'' @ attrName) of None \<Rightarrow> False | Some v \<Rightarrow> v \<noteq> []))"

text \<open>The entries the scan keeps, each judged on its own.\<close>

definition scan_keeps :: "filesys \<Rightarrow> string \<Rightarrow> string \<Rightarrow> dirent \<Rightarrow> bool" where
  "scan_keeps fs directory attrName entry =
     (\<not> d_isdir entry \<and>
      (case Stat fs (filepath_Join directory (d_name entry)) of
         Inl err \<Rightarrow> False
       | Inr info \<Rightarrow>
           IsRegular info \<and>
           HasMarker fs (filepath_Join directory (d_name entry)) attrName = (True, None)))"

definition modtime_of :: "filesys \<Rightarrow> string \<Rightarrow> int" where
  "modtime_of fs path = (case fs_nodes fs path of None \<Rightarrow> 0 | Some n \<Rightarrow> n_modtime n)"

definition deletable :: "filesys \<Rightarrow> string \<Rightarrow> bool" where
  "deletable fs path = (case fs_nodes fs path of None \<Rightarrow> False | Some n \<Rightarrow> \<not> n_undeletable n)"

text \<open>
  How \<^verbatim>\<open>getopt\<close> reads the arguments after the program's name when \<^verbatim>\<open>-f\<close> and
  \<^verbatim>\<open>-c\<close> take the next argument as their value and no other option takes one: the
  options in order, each with its value. It tells the flag \<^verbatim>\<open>-a\<close> from a file or
  codec that happens to be named \<^verbatim>\<open>-a\<close>.
\<close>

fun read_options :: "string list \<Rightarrow> (string \<times> string option) list" where
  "read_options [] = []"
| "read_options [a] = [(a, None)]"
| "read_options (a # b # rest) =
     (if a = ''-f'' \<or> a = ''-c'' then (a, Some b) # read_options rest
      else (a, None) # read_options (b # rest))"

text \<open>Counting the passes that reached the marking step, and the retention passes.\<close>

fun is_marker_set :: "event \<Rightarrow> bool" where
  "is_marker_set (MarkerSet f a v e) = True"
| "is_marker_set ev = False"

fun is_cleanup :: "event \<Rightarrow> bool" where
  "is_cleanup (Cleanup removed r) = True"
| "is_cleanup ev = False"

definition tally :: "event list \<Rightarrow> nat \<times> nat" where
  "tally evs = (length (filter is_marker_set evs), length (filter is_cleanup evs))"

text \<open>Removing a list of paths one after the other, as the loop does.\<close>

definition remove_all :: "string list \<Rightarrow> filesys \<Rightarrow> filesys" where
  "remove_all ps fs = fold (\<lambda>p s. fst (Remove s p)) ps fs"

section \<open>Example states\<close>

definition recording :: "int \<Rightarrow> bool \<Rightarrow> node" where
  "recording t locked =
     \<lparr>n_kind = Regular, n_modtime = t,
      n_xattrs = [''user.dashcam'' \<mapsto> ''standard_recording''], n_undeletable = locked\<rparr>"

definition plain_file :: "int \<Rightarrow> node" where
  "plain_file t = \<lparr>n_kind = Regular, n_modtime = t, n_xattrs = Map.empty, n_undeletable = False\<rparr>"

definition file_entry :: "string \<Rightarrow> dirent" where
  "file_entry name = \<lparr>d_name = name, d_isdir = False\<rparr>"

definition three_recordings :: filesys where
  "three_recordings =
     \<lparr>fs_dir = ''/rec'',
      fs_listing = [file_entry ''a.mkv'', file_entry ''b.mkv'', file_entry ''c.mkv'', file_entry ''notes.txt''],
      fs_nodes = [''/rec/a.mkv'' \<mapsto> recording 1 False, ''/rec/b.mkv'' \<mapsto> recording 3 False,
                  ''/rec/c.mkv'' \<mapsto> recording 2 False, ''/rec/notes.txt'' \<mapsto> plain_file 0]\<rparr>"

definition keep_two :: Config where
  "keep_two = \<lparr>RecordingsDir = ''/rec'', MaxFiles = 2, RecordingLength = 60,
                Extension = ''.mkv'', Codec = ''libx265'', RecordAudio = False\<rparr>"


definition locked_oldest :: filesys where
  "locked_oldest =
     \<lparr>fs_dir = ''/rec'',
      fs_listing = [file_entry ''a.mkv'', file_entry ''b.mkv''],
      fs_nodes = [''/rec/a.mkv'' \<mapsto> recording 1 True, ''/rec/b.mkv'' \<mapsto> recording 2 False]\<rparr>"

definition keep_one :: Config where
  "keep_one = \<lparr>RecordingsDir = ''/rec'', MaxFiles = 1, RecordingLength = 60,
                Extension = ''.mkv'', Codec = ''libx265'', RecordAudio = False\<rparr>"

definition mixed_dir :: filesys where
  "mixed_dir =
     \<lparr>fs_dir = ''/rec'',
      fs_listing =
        [\<lparr>d_name = ''old'', d_isdir = True\<rparr>, file_entry ''a.mkv'', file_entry ''gone.mkv'',
         file_entry ''pipe'', file_entry ''long.mkv'', file_entry ''empty.mkv'',
         file_entry ''notes.txt'', file_entry ''b.mkv''],
      fs_nodes =
        [''/rec/old'' \<mapsto> \<lparr>n_kind = Directory, n_modtime = 0, n_xattrs = Map.empty, n_undeletable = False\<rparr>,
         ''/rec/a.mkv'' \<mapsto> recording 1 False,
         ''/rec/pipe'' \<mapsto> \<lparr>n_kind = Special, n_modtime = 0,
            n_xattrs = [''user.dashcam'' \<mapsto> ''standard_recording''], n_undeletable = False\<rparr>,
         ''/rec/long.mkv'' \<mapsto> \<lparr>n_kind = Regular, n_modtime = 2,
            n_xattrs = [''user.dashcam'' \<mapsto> replicate 257 (CHR ''x'')], n_undeletable = False\<rparr>,
         ''/rec/empty.mkv'' \<mapsto> \<lparr>n_kind = Regular, n_modtime = 3,
            n_xattrs = [''user.dashcam'' \<mapsto> []], n_undeletable = False\<rparr>,
         ''/rec/notes.txt'' \<mapsto> plain_file 4,
         ''/rec/b.mkv'' \<mapsto> recording 5 False]\<rparr>"

definition default_config :: Config where
  "default_config =
     \<lparr>RecordingsDir = ''/home/user/recordings'', MaxFiles = 60, RecordingLength = 60,
      Extension = ''.mkv'', Codec = ''libx265'', RecordAudio = False\<rparr>"

definition afternoon :: "nat \<Rightarrow> gotime" where
  "afternoon m = \<lparr>t_year = 2024, t_month = 3, t_day = 7, t_yday = 67, t_hour = 14,
                   t_minute = m, t_second = 5\<rparr>"

definition stops_on_request :: proc_env where
  "stops_on_request =
     \<lparr>start_fails = False, exit_before_deadline = None, sigint_fails = False,
      exit_in_grace = Some ExitError, exit_after_kill = None\<rparr>"

definition ignores_sigint :: proc_env where
  "ignores_sigint =
     \<lparr>start_fails = False, exit_before_deadline = None, sigint_fails = False,
      exit_in_grace = None, exit_after_kill = Some ExitError\<rparr>"

definition crashes_early :: proc_env where
  "crashes_early =
     \<lparr>start_fails = False, exit_before_deadline = Some ExitError, sigint_fails = False,
      exit_in_grace = None, exit_after_kill = None\<rparr>"

definition pass :: "proc_env \<Rightarrow> nat \<Rightarrow> iter_env" where
  "pass p m = \<lparr>stop_requested = False, now = afternoon m, proc = p, capture = (\<lambda>fs. fs)\<rparr>"



section \<open>Lemmas\<close>

subsection \<open>The scan is a filter\<close>

lemma scan_entries_filter:
  "scan_entries fs d a es acc =
     acc @ map (\<lambda>e. filepath_Join d (d_name e)) (filter (scan_keeps fs d a) es)"
proof (induction es arbitrary: acc)
  case Nil
  show ?case by simp
next
  case (Cons e es)
  show ?case
    by (cases "HasMarker fs (filepath_Join d (d_name e)) a")
       (simp add: Cons.IH scan_keeps_def Let_def split: sum.splits option.splits)
qed

lemma scan_keeps_HasMarker:
  "scan_keeps fs d a e \<Longrightarrow> HasMarker fs (filepath_Join d (d_name e)) a = (True, None)"
  by (cases "Stat fs (filepath_Join d (d_name e))") (simp_all add: scan_keeps_def)

lemma scan_member_HasMarker:
  "p \<in> set (scan_entries fs d a es []) \<Longrightarrow> HasMarker fs p a = (True, None)"
  by (auto simp: scan_entries_filter dest: scan_keeps_HasMarker)

lemma HasMarker_True_iff:
  "HasMarker fs path name = (True, None) \<longleftrightarrow>
     (\<exists>n v. fs_nodes fs path = Some n \<and> n_xattrs n (''user.'' @ name) = Some v \<and>
            v \<noteq> [] \<and> length v \<le> 256)"
  by (auto simp: HasMarker_def Getxattr_def Let_def split: option.splits if_splits)

lemma HasMarker_marked: "HasMarker fs p a = (True, None) \<Longrightarrow> marked fs p a"
  by (auto simp: HasMarker_True_iff marked_def)

subsection \<open>The insertion sort sorts\<close>

lemma mset_insert_back: "mset (insert_back f x rs) = add_mset x (mset rs)"
  by (induction rs) auto

lemma mset_foldl_insert_back:
  "mset (foldl (\<lambda>rs x. insert_back f x rs) acc xs) = mset acc + mset xs"
  by (induction xs arbitrary: acc) (auto simp: mset_insert_back)

lemma mset_sort_Slice: "mset (sort_Slice f xs) = mset xs"
  by (simp add: sort_Slice_def mset_foldl_insert_back)

lemma set_sort_Slice: "set (sort_Slice f xs) = set xs"
  using mset_sort_Slice[of f xs] by (metis set_mset_mset)

lemma length_sort_Slice: "length (sort_Slice f xs) = length xs"
  using mset_sort_Slice[of f xs] by (metis size_mset)

lemma insert_back_desc:
  fixes key :: "'a \<Rightarrow> int"
  assumes "\<And>a b. a \<in> S \<Longrightarrow> b \<in> S \<Longrightarrow> f a b = (key a < key b)"
    and "x \<in> S" and "set rs \<subseteq> S"
    and "sorted_wrt (\<lambda>a b. key b \<le> key a) rs"
  shows "sorted_wrt (\<lambda>a b. key b \<le> key a) (insert_back f x rs)"
  using assms(3,4)
proof (induction rs)
  case Nil
  show ?case by simp
next
  case (Cons y rs)
  have fy: "f x y = (key x < key y)" using assms(1)[of x y] assms(2) Cons.prems(1) by simp
  show ?case
  proof (cases "f x y")
    case True
    have "\<forall>z \<in> set (insert_back f x rs). key z \<le> key y"
      using Cons.prems(2) True fy mset_insert_back[of f x rs]
      by (metis insert_iff less_imp_le set_mset_add_mset_insert set_mset_mset sorted_wrt.simps(2))
    then show ?thesis using True Cons by simp
  next
    case False
    then have "key y \<le> key x" using fy by simp
    then show ?thesis using False Cons.prems(2) by auto
  qed
qed

lemma foldl_insert_back_desc:
  fixes key :: "'a \<Rightarrow> int"
  assumes "\<And>a b. a \<in> S \<Longrightarrow> b \<in> S \<Longrightarrow> f a b = (key a < key b)"
  shows "set xs \<subseteq> S \<Longrightarrow> set acc \<subseteq> S \<Longrightarrow> sorted_wrt (\<lambda>a b. key b \<le> key a) acc \<Longrightarrow>
     sorted_wrt (\<lambda>a b. key b \<le> key a) (foldl (\<lambda>rs x. insert_back f x rs) acc xs)"
proof (induction xs arbitrary: acc)
  case Nil
  then show ?case by simp
next
  case (Cons x xs)
  have s: "sorted_wrt (\<lambda>a b. key b \<le> key a) (insert_back f x acc)"
    using insert_back_desc[of S f key x acc] assms Cons.prems by simp
  have "set (insert_back f x acc) \<subseteq> S"
    using mset_insert_back[of f x acc] Cons.prems
    by (metis insert_subset list.simps(15) set_mset_add_mset_insert set_mset_mset)
  then show ?case using Cons.IH[of "insert_back f x acc"] Cons.prems s by simp
qed

lemma sort_Slice_sorted:
  fixes key :: "'a \<Rightarrow> int"
  assumes "\<And>a b. a \<in> set xs \<Longrightarrow> b \<in> set xs \<Longrightarrow> f a b = (key a < key b)"
  shows "sorted_wrt (\<lambda>a b. key a \<le> key b) (sort_Slice f xs)"
proof -
  have "sorted_wrt (\<lambda>a b. key b \<le> key a) (foldl (\<lambda>rs x. insert_back f x rs) [] xs)"
    using foldl_insert_back_desc[of "set xs" f key xs "[]"] assms by simp
  then show ?thesis by (simp add: sort_Slice_def sorted_wrt_rev)
qed

lemma sort_Slice_strict:
  fixes key :: "'a \<Rightarrow> int"
  assumes "\<And>a b. a \<in> set xs \<Longrightarrow> b \<in> set xs \<Longrightarrow> f a b = (key a < key b)"
    and "distinct (map key xs)"
  shows "sorted_wrt (\<lambda>a b. key a < key b) (sort_Slice f xs)"
proof -
  have "mset (map key (sort_Slice f xs)) = mset (map key xs)"
    by (simp add: mset_sort_Slice)
  then have d: "distinct (map key (sort_Slice f xs))"
    using assms(2) by (metis mset_eq_imp_distinct_iff)
  have "sorted (map key (sort_Slice f xs))"
    using sort_Slice_sorted[OF assms(1)] by (simp add: sorted_wrt_map)
  then have "sorted_wrt (<) (map key (sort_Slice f xs))"
    using d by (simp add: strict_sorted_iff)
  then show ?thesis by (simp add: sorted_wrt_map)
qed


subsection \<open>Removing files\<close>

lemma Remove_nodes_other: "q \<noteq> p \<Longrightarrow> fs_nodes (fst (Remove fs p)) q = fs_nodes fs q"
  by (simp add: Remove_def split: option.splits)

lemma Remove_dir: "fs_dir (fst (Remove fs p)) = fs_dir fs"
  by (simp add: Remove_def split: option.splits)

lemma Remove_listing_keep:
  "e \<in> set (fs_listing fs) \<Longrightarrow> filepath_Join (fs_dir fs) (d_name e) \<noteq> p \<Longrightarrow>
     e \<in> set (fs_listing (fst (Remove fs p)))"
  by (simp add: Remove_def split: option.splits)

lemma Remove_deletable:
  "deletable fs p \<Longrightarrow>
     fst (Remove fs p) =
       fs\<lparr>fs_listing := filter (\<lambda>e. filepath_Join (fs_dir fs) (d_name e) \<noteq> p) (fs_listing fs),
          fs_nodes := (fs_nodes fs)(p := None)\<rparr>"
  by (simp add: Remove_def deletable_def split: option.splits)


lemma remove_all_simps:
  "remove_all [] fs = fs"
  "remove_all (p # ps) fs = remove_all ps (fst (Remove fs p))"
  by (simp_all add: remove_all_def)

lemma remove_all_nodes_other:
  "q \<notin> set ps \<Longrightarrow> fs_nodes (remove_all ps fs) q = fs_nodes fs q"
  by (induction ps arbitrary: fs) (auto simp: remove_all_simps Remove_nodes_other)

lemma remove_all_dir: "fs_dir (remove_all ps fs) = fs_dir fs"
  by (induction ps arbitrary: fs) (auto simp: remove_all_simps Remove_dir)

lemma remove_all_listing_keep:
  "e \<in> set (fs_listing fs) \<Longrightarrow> filepath_Join (fs_dir fs) (d_name e) \<notin> set ps \<Longrightarrow>
     e \<in> set (fs_listing (remove_all ps fs))"
  by (induction ps arbitrary: fs) (auto simp: remove_all_simps Remove_dir Remove_listing_keep)

lemma remove_all_deletable:
  "distinct ps \<Longrightarrow> \<forall>p\<in>set ps. deletable fs p \<Longrightarrow>
     fs_nodes (remove_all ps fs) = (\<lambda>q. if q \<in> set ps then None else fs_nodes fs q) \<and>
     fs_listing (remove_all ps fs) =
       filter (\<lambda>e. filepath_Join (fs_dir fs) (d_name e) \<notin> set ps) (fs_listing fs)"
proof (induction ps arbitrary: fs)
  case Nil
  show ?case by (simp add: remove_all_simps)
next
  case (Cons p ps)
  let ?fs1 = "fst (Remove fs p)"
  have del: "deletable fs p" using Cons.prems by simp
  have fs1: "?fs1 = fs\<lparr>fs_listing := filter (\<lambda>e. filepath_Join (fs_dir fs) (d_name e) \<noteq> p) (fs_listing fs),
          fs_nodes := (fs_nodes fs)(p := None)\<rparr>"
    by (rule Remove_deletable[OF del])
  have "\<forall>q\<in>set ps. deletable ?fs1 q"
    using Cons.prems by (auto simp: deletable_def fs1)
  then have IH: "fs_nodes (remove_all ps ?fs1) = (\<lambda>q. if q \<in> set ps then None else fs_nodes ?fs1 q) \<and>
     fs_listing (remove_all ps ?fs1) =
       filter (\<lambda>e. filepath_Join (fs_dir ?fs1) (d_name e) \<notin> set ps) (fs_listing ?fs1)"
    using Cons.IH[of ?fs1] Cons.prems by simp
  have n: "fs_nodes ?fs1 = (fs_nodes fs)(p := None)" and l: "fs_listing ?fs1 = filter (\<lambda>e. filepath_Join (fs_dir fs) (d_name e) \<noteq> p) (fs_listing fs)"
    and d: "fs_dir ?fs1 = fs_dir fs"
    by (simp_all add: fs1)
  show ?case
    using IH unfolding n l d
    by (auto simp: remove_all_simps fun_eq_iff intro: filter_cong)
qed

lemma remove_loop_in_range:
  "filesToRemove \<le> int (length files) \<Longrightarrow>
     remove_loop fs files i filesToRemove tried =
       (remove_all (take (nat (filesToRemove - int i)) (drop i files)) fs,
        tried @ take (nat (filesToRemove - int i)) (drop i files),
        Returned None)"
proof (induction fs files i filesToRemove tried rule: remove_loop.induct)
  case (1 fs files i filesToRemove tried)
  show ?case
  proof (cases "int i < filesToRemove")
    case False
    then show ?thesis by (subst remove_loop.simps) (simp add: remove_all_simps)
  next
    case True
    then have il: "i < length files" using "1.prems" by linarith
    have n: "nat (filesToRemove - int i) = Suc (nat (filesToRemove - int (Suc i)))"
      using True by simp
    have dr: "drop i files = files ! i # drop (Suc i) files"
      using il by (simp add: Cons_nth_drop_Suc)
    show ?thesis
      apply (subst remove_loop.simps)
      using True il "1.IH"[OF True il "1.prems"]
      apply (simp only: if_True n dr take_Suc_Cons remove_all_simps)
      apply simp
      done
  qed
qed

lemma remove_loop_general:
  "remove_loop fs files i filesToRemove tried = (fs', tried', out) \<Longrightarrow>
     \<exists>ps. set ps \<subseteq> set files \<and> tried' = tried @ ps \<and> fs' = remove_all ps fs"
proof (induction fs files i filesToRemove tried rule: remove_loop.induct)
  case (1 fs files i filesToRemove tried)
  show ?case
  proof (cases "int i < filesToRemove \<and> i < length files")
    case False
    then have "fs' = fs \<and> tried' = tried"
      using "1.prems" by (subst (asm) remove_loop.simps) (auto split: if_splits)
    then show ?thesis by (intro exI[of _ "[]"]) (simp add: remove_all_simps)
  next
    case True
    then have "remove_loop (fst (Remove fs (files ! i))) files (Suc i) filesToRemove (tried @ [files ! i]) = (fs', tried', out)"
      using "1.prems" by (subst (asm) remove_loop.simps) simp
    then obtain ps where ps: "set ps \<subseteq> set files" "tried' = (tried @ [files ! i]) @ ps"
        "fs' = remove_all ps (fst (Remove fs (files ! i)))"
      using "1.IH" True by blast
    show ?thesis
      using ps True by (intro exI[of _ "files ! i # ps"]) (simp add: remove_all_simps)
  qed
qed



subsection \<open>The scan after a removal\<close>

lemma scan_keeps_cong:
  "fs_nodes fs' (filepath_Join d (d_name e)) = fs_nodes fs (filepath_Join d (d_name e)) \<Longrightarrow>
     scan_keeps fs' d a e = scan_keeps fs d a e"
  by (simp add: scan_keeps_def Stat_def HasMarker_def Getxattr_def Let_def
        split: option.splits sum.splits)

lemma scan_after_removal:
  assumes "\<forall>q. q \<notin> R \<longrightarrow> fs_nodes fs' q = fs_nodes fs q"
  shows "scan_entries fs' d a (filter (\<lambda>e. filepath_Join d (d_name e) \<notin> R) es) [] =
           filter (\<lambda>p. p \<notin> R) (scan_entries fs d a es [])"
proof -
  have "filter (scan_keeps fs' d a) (filter (\<lambda>e. filepath_Join d (d_name e) \<notin> R) es) =
        filter (\<lambda>e. filepath_Join d (d_name e) \<notin> R) (filter (scan_keeps fs d a) es)"
  proof (induction es)
    case Nil
    show ?case by simp
  next
    case (Cons e es)
    have "filepath_Join d (d_name e) \<notin> R \<Longrightarrow> scan_keeps fs' d a e = scan_keeps fs d a e"
      using assms by (intro scan_keeps_cong) simp
    then show ?case using Cons.IH by auto
  qed
  then show ?thesis
    by (simp add: scan_entries_filter filter_map comp_def)
qed

lemma filter_not_in_take:
  assumes "distinct xs"
  shows "filter (\<lambda>p. p \<notin> set (take k xs)) xs = drop k xs"
proof -
  have disj: "set (take k xs) \<inter> set (drop k xs) = {}"
    using assms by (rule set_take_disj_set_drop_if_distinct) simp
  have a: "filter (\<lambda>p. p \<notin> set (take k xs)) (take k xs) = []"
    by (simp add: filter_empty_conv)
  have b: "filter (\<lambda>p. p \<notin> set (take k xs)) (drop k xs) = drop k xs"
    using disj by (auto simp: filter_id_conv)
  have "filter (\<lambda>p. p \<notin> set (take k xs)) (take k xs @ drop k xs) = drop k xs"
    unfolding filter_append a b by simp
  then show ?thesis by (simp only: append_take_drop_id)
qed

lemma length_filter_mset:
  "mset xs = mset ys \<Longrightarrow> length (filter P xs) = length (filter P ys)"
  by (metis mset_filter size_mset)

lemma scanned_file_exists:
  "p \<in> set (scan_entries fs d a es []) \<Longrightarrow> \<exists>n. fs_nodes fs p = Some n"
  using scan_member_HasMarker[of p fs d a es] by (auto simp: HasMarker_True_iff)

lemma modtime_less_on_files:
  "\<exists>n. fs_nodes fs x = Some n \<Longrightarrow> \<exists>n. fs_nodes fs y = Some n \<Longrightarrow>
     modtime_less fs x y = (modtime_of fs x < modtime_of fs y)"
  by (auto simp: modtime_less_def Stat_def modtime_of_def)

section \<open>Retention\<close>

text \<open>
  Claim C1, as the code has it. Let the scan of the recordings directory return
  \<open>files\<close>, with modification times that differ pairwise, let \<open>MaxFiles\<close> be
  non-negative, and let every removal the pass attempts be one the system allows. Then
  the pass returns without error; a second scan returns the files of the first that were
  not removed, at most \<open>MaxFiles\<close> of them; every removed file is strictly older than
  every file that stays; the pass removes \<open>length files - MaxFiles\<close> files (none when
  that is not positive, and then the state is untouched); and the removed files are gone.
\<close>

theorem cleanup_retention_bound:
  assumes scan: "GetFilesWithMarker fs (RecordingsDir config) attributeMarkerName = Inr files"
    and dist: "distinct (map (modtime_of fs) files)"
    and cap: "0 \<le> MaxFiles config"
    and run: "cleanupOldFiles config fs = (fs', removed, out)"
    and del: "\<forall>p\<in>set removed. deletable fs p"
  shows "out = Returned None \<and>
         GetFilesWithMarker fs' (RecordingsDir config) attributeMarkerName =
           Inr (filter (\<lambda>p. p \<notin> set removed) files) \<and>
         int (length (filter (\<lambda>p. p \<notin> set removed) files)) \<le> MaxFiles config \<and>
         (\<forall>r\<in>set removed. \<forall>k\<in>set (filter (\<lambda>p. p \<notin> set removed) files).
            modtime_of fs r < modtime_of fs k) \<and>
         set removed \<subseteq> set files \<and>
         int (length removed) = max 0 (int (length files) - MaxFiles config) \<and>
         (\<forall>p\<in>set removed. fs_nodes fs' p = None) \<and>
         (int (length files) \<le> MaxFiles config \<longrightarrow> fs' = fs \<and> removed = [])"
proof -
  let ?d = "RecordingsDir config" and ?a = attributeMarkerName
  have dir: "?d = fs_dir fs" and files: "files = scan_entries fs ?d ?a (fs_listing fs) []"
    using scan by (auto simp: GetFilesWithMarker_def ReadDir_def split: if_splits)
  show ?thesis
  proof (cases "int (length files) \<le> MaxFiles config")
    case True
    then have "fs' = fs" "removed = []" "out = Returned None"
      using run scan by (simp_all add: cleanupOldFiles_def)
    then show ?thesis using True scan by simp
  next
    case False
    define sorted where "sorted = sort_Slice (modtime_less fs) files"
    define k where "k = nat (int (length files) - MaxFiles config)"
    have len: "length sorted = length files" by (simp add: sorted_def length_sort_Slice)
    have kle: "k \<le> length files" and kpos: "int k = int (length files) - MaxFiles config"
      using False cap by (simp_all add: k_def)
    have "remove_loop fs sorted 0 (int (length sorted) - MaxFiles config) [] = (fs', removed, out)"
      using run scan False by (simp add: cleanupOldFiles_def Let_def sorted_def)
    moreover have "int (length sorted) - MaxFiles config \<le> int (length sorted)"
      using cap by simp
    ultimately have res: "fs' = remove_all (take k sorted) fs" "removed = take k sorted"
        "out = Returned None"
      using remove_loop_in_range[of "int (length sorted) - MaxFiles config" sorted fs 0 "[]"]
      by (simp_all add: k_def len)
    have ex: "\<And>p. p \<in> set files \<Longrightarrow> \<exists>n. fs_nodes fs p = Some n"
      using scanned_file_exists files by blast
    have strict: "sorted_wrt (\<lambda>a b. modtime_of fs a < modtime_of fs b) sorted"
      unfolding sorted_def
    proof (rule sort_Slice_strict)
      fix a b
      assume "a \<in> set files" "b \<in> set files"
      then show "modtime_less fs a b = (modtime_of fs a < modtime_of fs b)"
        by (intro modtime_less_on_files ex)
    next
      show "distinct (map (modtime_of fs) files)" by (rule dist)
    qed
    have dfiles: "distinct files" using dist by (simp add: distinct_map)
    have ms: "mset sorted = mset files" by (simp add: sorted_def mset_sort_Slice)
    have dsorted: "distinct sorted" using dfiles ms by (metis mset_eq_imp_distinct_iff)
    have setsorted: "set sorted = set files" by (simp add: sorted_def set_sort_Slice)
    have sub: "set removed \<subseteq> set files"
      using res(2) setsorted by (metis set_take_subset)
    have drem: "distinct removed" using res(2) dsorted by simp
    have nodes': "fs_nodes fs' = (\<lambda>q. if q \<in> set removed then None else fs_nodes fs q)"
      and listing': "fs_listing fs' =
         filter (\<lambda>e. filepath_Join (fs_dir fs) (d_name e) \<notin> set removed) (fs_listing fs)"
      using remove_all_deletable[OF drem del] res(1,2) by simp_all
    have dir': "fs_dir fs' = fs_dir fs" by (simp add: res(1) remove_all_dir)
    have scan': "GetFilesWithMarker fs' ?d ?a = Inr (filter (\<lambda>p. p \<notin> set removed) files)"
      using scan_after_removal[of "set removed" fs' fs "fs_dir fs" ?a "fs_listing fs"]
      by (simp add: GetFilesWithMarker_def ReadDir_def dir' dir[symmetric] listing' nodes' files)
    have "length (filter (\<lambda>p. p \<notin> set removed) files) =
          length (filter (\<lambda>p. p \<notin> set removed) sorted)"
      using ms by (metis length_filter_mset)
    also have "\<dots> = length (drop k sorted)"
      by (simp add: res(2) filter_not_in_take[OF dsorted])
    finally have lenrest: "length (filter (\<lambda>p. p \<notin> set removed) files) = length files - k"
      by (simp add: len)
    have bound: "int (length (filter (\<lambda>p. p \<notin> set removed) files)) \<le> MaxFiles config"
      using lenrest kpos kle by simp
    have "sorted_wrt (\<lambda>a b. modtime_of fs a < modtime_of fs b) (take k sorted @ drop k sorted)"
      using strict by simp
    then have td: "\<forall>r\<in>set (take k sorted). \<forall>y\<in>set (drop k sorted). modtime_of fs r < modtime_of fs y"
      unfolding sorted_wrt_append by blast
    have "set (filter (\<lambda>p. p \<notin> set removed) files) =
          set (filter (\<lambda>p. p \<notin> set removed) sorted)"
      by (simp add: setsorted)
    also have "\<dots> = set (drop k sorted)"
      by (simp only: res(2) filter_not_in_take[OF dsorted])
    finally have order: "\<forall>r\<in>set removed. \<forall>y\<in>set (filter (\<lambda>p. p \<notin> set removed) files).
            modtime_of fs r < modtime_of fs y"
      using td res(2) by simp
    have lrem: "int (length removed) = max 0 (int (length files) - MaxFiles config)"
      using res(2) kle kpos len False by simp
    have gone: "\<forall>p\<in>set removed. fs_nodes fs' p = None" by (simp add: nodes')
    have small: "int (length files) \<le> MaxFiles config \<longrightarrow> fs' = fs \<and> removed = []"
      using False by simp
    show ?thesis
      by (intro conjI) (rule res(3) scan' bound order sub lrem gone small)+
  qed
qed

theorem cleanup_retention_bound_witness:
  "GetFilesWithMarker three_recordings (RecordingsDir keep_two) attributeMarkerName =
     Inr [''/rec/a.mkv'', ''/rec/b.mkv'', ''/rec/c.mkv''] \<and>
   snd (cleanupOldFiles keep_two three_recordings) = ([''/rec/a.mkv''], Returned None) \<and>
   GetFilesWithMarker (fst (cleanupOldFiles keep_two three_recordings)) (RecordingsDir keep_two)
     attributeMarkerName = Inr [''/rec/b.mkv'', ''/rec/c.mkv''] \<and>
   fs_nodes (fst (cleanupOldFiles keep_two three_recordings)) ''/rec/a.mkv'' = None"
proof -
  let ?files = "[''/rec/a.mkv'', ''/rec/b.mkv'', ''/rec/c.mkv'']"
  have scan: "GetFilesWithMarker three_recordings (RecordingsDir keep_two) attributeMarkerName =
      Inr ?files"
    by code_simp
  have dist: "distinct (map (modtime_of three_recordings) ?files)"
    by code_simp
  have cap: "0 \<le> MaxFiles keep_two"
    by code_simp
  have res: "snd (cleanupOldFiles keep_two three_recordings) = ([''/rec/a.mkv''], Returned None)"
    by code_simp
  then have run: "cleanupOldFiles keep_two three_recordings =
      (fst (cleanupOldFiles keep_two three_recordings), [''/rec/a.mkv''], Returned None)"
    by (metis prod.collapse)
  have "deletable three_recordings ''/rec/a.mkv''"
    by code_simp
  then have del: "\<forall>p\<in>set [''/rec/a.mkv'']. deletable three_recordings p"
    by simp
  show ?thesis
    using cleanup_retention_bound[OF scan dist cap run del] scan res by simp
qed

text \<open>
  Claim C1 as the spec words it has no proviso on the removals. With the oldest of two
  recordings locked against removal and room for one, the pass tries the oldest, logs
  the failure and returns; both recordings are still there, one more than \<open>MaxFiles\<close>.
\<close>

theorem cleanup_retention_bound_counterexample:
  "GetFilesWithMarker locked_oldest (RecordingsDir keep_one) attributeMarkerName =
     Inr [''/rec/a.mkv'', ''/rec/b.mkv''] \<and>
   modtime_of locked_oldest ''/rec/a.mkv'' \<noteq> modtime_of locked_oldest ''/rec/b.mkv'' \<and>
   MaxFiles keep_one = 1 \<and>
   snd (cleanupOldFiles keep_one locked_oldest) = ([''/rec/a.mkv''], Returned None) \<and>
   GetFilesWithMarker (fst (cleanupOldFiles keep_one locked_oldest)) (RecordingsDir keep_one)
     attributeMarkerName = Inr [''/rec/a.mkv'', ''/rec/b.mkv'']"
  by code_simp

subsection \<open>Files without the marker\<close>

lemma unmarked_not_scanned:
  "\<not> marked fs p a \<Longrightarrow> p \<notin> set (scan_entries fs d a es [])"
  using scan_member_HasMarker HasMarker_marked by blast

text \<open>
  Claim C2. A path that does not carry \<^verbatim>\<open>user.dashcam\<close> with a non-empty value is
  never handed to \<^verbatim>\<open>os.Remove\<close> by the retention pass, its file and its directory
  entry are the same after the pass as before, whatever its age and however the pass
  ends; it is not among the files the scan returns (so it is not counted against
  \<open>MaxFiles\<close>), and every path the pass tries to remove is one the scan returned.
\<close>

theorem untracked_files_inert:
  assumes unmarked: "\<not> marked fs p attributeMarkerName"
    and run: "cleanupOldFiles config fs = (fs', removed, out)"
  shows "p \<notin> set removed \<and>
         fs_nodes fs' p = fs_nodes fs p \<and>
         (\<forall>e\<in>set (fs_listing fs).
            filepath_Join (fs_dir fs) (d_name e) = p \<longrightarrow> e \<in> set (fs_listing fs')) \<and>
         (\<forall>files. GetFilesWithMarker fs (RecordingsDir config) attributeMarkerName = Inr files \<longrightarrow>
            p \<notin> set files \<and> set removed \<subseteq> set files)"
proof (cases "GetFilesWithMarker fs (RecordingsDir config) attributeMarkerName")
  case (Inl err)
  then have "fs' = fs" "removed = []"
    using run by (simp_all add: cleanupOldFiles_def)
  then show ?thesis using Inl by simp
next
  case (Inr files)
  have notin: "p \<notin> set files"
    using Inr unmarked unmarked_not_scanned
    by (auto simp: GetFilesWithMarker_def split: sum.splits)
  show ?thesis
  proof (cases "int (length files) \<le> MaxFiles config")
    case True
    then have "fs' = fs" "removed = []"
      using run Inr by (simp_all add: cleanupOldFiles_def)
    then show ?thesis using Inr notin by simp
  next
    case False
    let ?sorted = "sort_Slice (modtime_less fs) files"
    have "remove_loop fs ?sorted 0 (int (length ?sorted) - MaxFiles config) [] = (fs', removed, out)"
      using run Inr False by (simp add: cleanupOldFiles_def Let_def)
    then obtain ps where ps: "set ps \<subseteq> set ?sorted" "removed = [] @ ps" "fs' = remove_all ps fs"
      using remove_loop_general by blast
    have sub: "set removed \<subseteq> set files"
      using ps(1,2) by (simp add: set_sort_Slice)
    then have pr: "p \<notin> set removed" using notin by blast
    have nodes: "fs_nodes fs' p = fs_nodes fs p"
      using pr ps(2,3) by (simp add: remove_all_nodes_other)
    have listing: "\<forall>e\<in>set (fs_listing fs).
            filepath_Join (fs_dir fs) (d_name e) = p \<longrightarrow> e \<in> set (fs_listing fs')"
      using pr ps(2,3) by (auto intro: remove_all_listing_keep)
    show ?thesis using pr nodes listing Inr notin sub by simp
  qed
qed

theorem untracked_files_inert_witness:
  "\<not> marked three_recordings ''/rec/notes.txt'' attributeMarkerName \<and>
   ''/rec/notes.txt'' \<notin> set (fst (snd (cleanupOldFiles keep_two three_recordings))) \<and>
   fs_nodes (fst (cleanupOldFiles keep_two three_recordings)) ''/rec/notes.txt'' =
     fs_nodes three_recordings ''/rec/notes.txt'' \<and>
   fs_nodes three_recordings ''/rec/notes.txt'' = Some (plain_file 0)"
proof -
  have un: "\<not> marked three_recordings ''/rec/notes.txt'' attributeMarkerName"
    by code_simp
  have run: "cleanupOldFiles keep_two three_recordings =
      (fst (cleanupOldFiles keep_two three_recordings),
       fst (snd (cleanupOldFiles keep_two three_recordings)),
       snd (snd (cleanupOldFiles keep_two three_recordings)))"
    by simp
  have here: "fs_nodes three_recordings ''/rec/notes.txt'' = Some (plain_file 0)"
    by (simp add: three_recordings_def)
  show ?thesis
    using untracked_files_inert[OF un run] un here by simp
qed

section \<open>The marker store\<close>

text \<open>
  What \<^verbatim>\<open>HasMarker\<close> answers. It reads the value into a buffer of 256 bytes, so the
  answer is true exactly when the attribute \<^verbatim>\<open>user.\<close>\<open>name\<close> is on the path with a value
  of 1 to 256 bytes. An attribute with an empty value gives false and no error, and the
  path is in no listing of marked files. A value of more than 256 bytes gives false with
  the error \<^verbatim>\<open>ERANGE\<close>.
\<close>

lemma HasMarker_characterisation:
  "(fst (HasMarker fs path name) \<longleftrightarrow>
      (\<exists>n v. fs_nodes fs path = Some n \<and> n_xattrs n (''user.'' @ name) = Some v \<and>
             v \<noteq> [] \<and> length v \<le> 256)) \<and>
   (\<forall>n. fs_nodes fs path = Some n \<and> n_xattrs n (''user.'' @ name) = Some [] \<longrightarrow>
      HasMarker fs path name = (False, None) \<and>
      (\<forall>d files. GetFilesWithMarker fs d name = Inr files \<longrightarrow> path \<notin> set files)) \<and>
   (\<forall>n v. fs_nodes fs path = Some n \<and> n_xattrs n (''user.'' @ name) = Some v \<and>
      256 < length v \<longrightarrow> HasMarker fs path name = (False, Some (GetXattrError ERANGE)))"
proof (intro conjI allI impI)
  show "fst (HasMarker fs path name) \<longleftrightarrow>
      (\<exists>n v. fs_nodes fs path = Some n \<and> n_xattrs n (''user.'' @ name) = Some v \<and>
             v \<noteq> [] \<and> length v \<le> 256)"
    by (auto simp: HasMarker_def Getxattr_def Let_def split: option.splits if_splits)
next
  fix n
  assume "fs_nodes fs path = Some n \<and> n_xattrs n (''user.'' @ name) = Some []"
  then show "HasMarker fs path name = (False, None)"
    by (simp add: HasMarker_def Getxattr_def)
next
  fix n d files
  assume e: "fs_nodes fs path = Some n \<and> n_xattrs n (''user.'' @ name) = Some []"
    and s: "GetFilesWithMarker fs d name = Inr files"
  have "HasMarker fs path name \<noteq> (True, None)"
    using e by (simp add: HasMarker_def Getxattr_def)
  then show "path \<notin> set files"
    using s scan_member_HasMarker
    by (auto simp: GetFilesWithMarker_def split: sum.splits)
next
  fix n v
  assume "fs_nodes fs path = Some n \<and> n_xattrs n (''user.'' @ name) = Some v \<and> 256 < length v"
  then show "HasMarker fs path name = (False, Some (GetXattrError ERANGE))"
    by (simp add: HasMarker_def Getxattr_def)
qed

lemma HasMarker_characterisation_example:
  "fs_nodes mixed_dir ''/rec/empty.mkv'' =
     Some \<lparr>n_kind = Regular, n_modtime = 3, n_xattrs = [''user.dashcam'' \<mapsto> []], n_undeletable = False\<rparr> \<and>
   HasMarker mixed_dir ''/rec/empty.mkv'' ''dashcam'' = (False, None) \<and>
   GetFilesWithMarker mixed_dir ''/rec'' ''dashcam'' = Inr [''/rec/a.mkv'', ''/rec/b.mkv''] \<and>
   ''/rec/empty.mkv'' \<notin> set [''/rec/a.mkv'', ''/rec/b.mkv''] \<and>
   fst (HasMarker mixed_dir ''/rec/a.mkv'' ''dashcam'') \<and>
   HasMarker mixed_dir ''/rec/long.mkv'' ''dashcam'' = (False, Some (GetXattrError ERANGE))"
proof -
  let ?n = "\<lparr>n_kind = Regular, n_modtime = 3, n_xattrs = [''user.dashcam'' \<mapsto> []], n_undeletable = False\<rparr>"
  have node: "fs_nodes mixed_dir ''/rec/empty.mkv'' = Some ?n"
    by (simp add: mixed_dir_def)
  have attr: "n_xattrs ?n (''user.'' @ ''dashcam'') = Some []"
    by simp
  have scan: "GetFilesWithMarker mixed_dir ''/rec'' ''dashcam'' = Inr [''/rec/a.mkv'', ''/rec/b.mkv'']"
    by code_simp
  have pos: "fst (HasMarker mixed_dir ''/rec/a.mkv'' ''dashcam'')"
    by code_simp
  have long: "HasMarker mixed_dir ''/rec/long.mkv'' ''dashcam'' = (False, Some (GetXattrError ERANGE))"
    by code_simp
  show ?thesis
    using HasMarker_characterisation[of mixed_dir "''/rec/empty.mkv''" "''dashcam''"]
      node attr scan pos long
    by auto
qed

text \<open>
  Claim C3 says that \<^verbatim>\<open>HasMarker\<close> answers true if and only if the attribute is
  present and its value is not empty; so does the comment on the function in the
  second copy of the package. The code does not: \<^verbatim>\<open>SetMarker\<close> stores a value of 257 bytes without error, the attribute is
  then present and not empty, and \<^verbatim>\<open>HasMarker\<close> answers false with the error
  \<^verbatim>\<open>ERANGE\<close>, because the buffer it reads into holds 256 bytes.
\<close>

theorem HasMarker_long_value:
  "snd (SetMarker three_recordings ''/rec/notes.txt'' ''dashcam'' (replicate 257 (CHR ''x''))) = None \<and>
   marked (fst (SetMarker three_recordings ''/rec/notes.txt'' ''dashcam'' (replicate 257 (CHR ''x''))))
     ''/rec/notes.txt'' ''dashcam'' \<and>
   HasMarker (fst (SetMarker three_recordings ''/rec/notes.txt'' ''dashcam'' (replicate 257 (CHR ''x''))))
     ''/rec/notes.txt'' ''dashcam'' = (False, Some (GetXattrError ERANGE))"
  by code_simp

text \<open>
  Claim C8. On a file that does not have the attribute, \<^verbatim>\<open>RemoveMarker\<close> returns no
  error and leaves the state as it is. On every path, a second call right after the
  first leaves the state the first call produced and returns what the first returned.
\<close>

theorem RemoveMarker_idempotent:
  "(\<forall>n. fs_nodes fs path = Some n \<and> n_xattrs n (''user.'' @ name) = None \<longrightarrow>
      RemoveMarker fs path name = (fs, None)) \<and>
   RemoveMarker (fst (RemoveMarker fs path name)) path name =
     (fst (RemoveMarker fs path name), snd (RemoveMarker fs path name))"
  by (auto simp: RemoveMarker_def Removexattr_def Let_def split: option.splits)

theorem RemoveMarker_idempotent_witness:
  "fs_nodes three_recordings ''/rec/notes.txt'' = Some (plain_file 0) \<and>
   n_xattrs (plain_file 0) (''user.'' @ ''dashcam'') = None \<and>
   RemoveMarker three_recordings ''/rec/notes.txt'' ''dashcam'' = (three_recordings, None) \<and>
   snd (RemoveMarker three_recordings ''/rec/a.mkv'' ''dashcam'') = None \<and>
   snd (RemoveMarker (fst (RemoveMarker three_recordings ''/rec/a.mkv'' ''dashcam''))
          ''/rec/a.mkv'' ''dashcam'') = None"
proof -
  have node: "fs_nodes three_recordings ''/rec/notes.txt'' = Some (plain_file 0)"
    by (simp add: three_recordings_def)
  have attr: "n_xattrs (plain_file 0) (''user.'' @ ''dashcam'') = None"
    by (simp add: plain_file_def)
  have once: "snd (RemoveMarker three_recordings ''/rec/a.mkv'' ''dashcam'') = None"
    by code_simp
  show ?thesis
    using RemoveMarker_idempotent[of three_recordings "''/rec/notes.txt''" "''dashcam''"]
      RemoveMarker_idempotent[of three_recordings "''/rec/a.mkv''" "''dashcam''"]
      node attr once
    by simp
qed

text \<open>
  Claim C9. When the directory can be read, \<^verbatim>\<open>GetFilesWithMarker\<close> returns no error:
  it returns, in listing order, the paths of the entries that pass \<open>scan_keeps\<close>, each
  entry judged on its own. A directory, an entry whose \<^verbatim>\<open>stat\<close> fails, an entry that
  is not a regular file and an entry whose attribute cannot be read do not pass; nothing
  else about them reaches the result.
\<close>

theorem scan_skips_bad_entries:
  assumes "ReadDir fs directory = Inr entries"
  shows "GetFilesWithMarker fs directory attrName =
           Inr (map (\<lambda>e. filepath_Join directory (d_name e))
                  (filter (scan_keeps fs directory attrName) entries)) \<and>
         (\<forall>e. d_isdir e \<or>
               (\<exists>err. Stat fs (filepath_Join directory (d_name e)) = Inl err) \<or>
               (\<exists>info. Stat fs (filepath_Join directory (d_name e)) = Inr info \<and> \<not> IsRegular info) \<or>
               (\<exists>b err. HasMarker fs (filepath_Join directory (d_name e)) attrName = (b, Some err))
               \<longrightarrow> \<not> scan_keeps fs directory attrName e)"
  using assms
  by (auto simp: GetFilesWithMarker_def scan_entries_filter scan_keeps_def split: sum.splits)

theorem scan_skips_bad_entries_witness:
  "ReadDir mixed_dir ''/rec'' = Inr (fs_listing mixed_dir) \<and>
   filter (scan_keeps mixed_dir ''/rec'' ''dashcam'') (fs_listing mixed_dir) =
     [file_entry ''a.mkv'', file_entry ''b.mkv''] \<and>
   GetFilesWithMarker mixed_dir ''/rec'' ''dashcam'' = Inr [''/rec/a.mkv'', ''/rec/b.mkv''] \<and>
   Stat mixed_dir ''/rec/gone.mkv'' = Inl ENOENT \<and>
   HasMarker mixed_dir ''/rec/long.mkv'' ''dashcam'' = (False, Some (GetXattrError ERANGE))"
proof -
  have rd: "ReadDir mixed_dir ''/rec'' = Inr (fs_listing mixed_dir)"
    by (simp add: ReadDir_def mixed_dir_def)
  have keep: "filter (scan_keeps mixed_dir ''/rec'' ''dashcam'') (fs_listing mixed_dir) =
     [file_entry ''a.mkv'', file_entry ''b.mkv'']"
    by code_simp
  have paths: "map (\<lambda>e. filepath_Join ''/rec'' (d_name e)) [file_entry ''a.mkv'', file_entry ''b.mkv''] =
     [''/rec/a.mkv'', ''/rec/b.mkv'']"
    by code_simp
  have st: "Stat mixed_dir ''/rec/gone.mkv'' = Inl ENOENT"
    by (simp add: Stat_def mixed_dir_def)
  have long: "HasMarker mixed_dir ''/rec/long.mkv'' ''dashcam'' = (False, Some (GetXattrError ERANGE))"
    by code_simp
  show ?thesis
    using scan_skips_bad_entries[OF rd, of "''dashcam''"] rd keep paths st long
    by simp
qed

section \<open>File names: what the layout writes\<close>

text \<open>
  The layout \<^verbatim>\<open>2025-01-02_15-35-05\<close> is not the reference time. Read as Go reads it,
  it is: day, day in two digits, second, \<^verbatim>\<open>-\<close>, month in two digits, \<^verbatim>\<open>-\<close>, day in
  two digits, \<^verbatim>\<open>_\<close>, hour in two digits, \<^verbatim>\<open>-\<close>, hour on the twelve-hour clock,
  second, \<^verbatim>\<open>-\<close>, second in two digits. The year and the minute are not in it.
\<close>

lemma format_dashcam_layout:
  "format_layout t ''2025-01-02_15-35-05'' =
     appendInt (t_day t) 0 @ appendInt (t_day t) 2 @ appendInt (t_second t) 0 @ ''-'' @
     appendInt (t_month t) 2 @ ''-'' @ appendInt (t_day t) 2 @ ''_'' @ appendInt (t_hour t) 2 @ ''-'' @
     appendInt (hour12 (t_hour t)) 0 @ appendInt (t_second t) 0 @ ''-'' @ appendInt (t_second t) 2"
  by (simp add: chunk_at_def has_prefix_def std0x_def)

lemma generateFilename_ignores_year_and_minute:
  "generateFilename config (t\<lparr>t_year := y, t_minute := m\<rparr>) = generateFilename config t"
  unfolding generateFilename_def format_dashcam_layout by simp

text \<open>
  Claim C7 says that two file names made in different seconds differ. The code gives
  the recordings begun at 14:09:05 and at 14:10:05 of the same day the same path.
\<close>

theorem generateFilename_collision:
  "generateFilename default_config (afternoon 9) = ''/home/user/recordings/7075-03-07_14-25-05.mkv'' \<and>
   generateFilename default_config (afternoon 10) = ''/home/user/recordings/7075-03-07_14-25-05.mkv'' \<and>
   t_minute (afternoon 9) \<noteq> t_minute (afternoon 10)"
  by code_simp

section \<open>The arguments of the recorder\<close>

text \<open>
  Claim C4. The argument vector begins with the program, \<^verbatim>\<open>-f\<close> and the output path,
  for every configuration. Read as options, it has the flag \<^verbatim>\<open>-a\<close> exactly when
  \<open>RecordAudio\<close> is false, and \<^verbatim>\<open>-c\<close> with the configured codec exactly when the
  codec is not empty; \<^verbatim>\<open>-c\<close> stands right before the codec somewhere in the vector
  exactly when the codec is not empty. Unless the file or the codec is itself named
  \<^verbatim>\<open>-a\<close>, the string \<^verbatim>\<open>-a\<close> is an element of the vector exactly when
  \<open>RecordAudio\<close> is false.
\<close>

theorem recordScreen_args_flags:
  "take 3 (recordScreen_args config filename) = [''wf-recorder'', ''-f'', filename] \<and>
   (''-f'', Some filename) \<in> set (read_options (tl (recordScreen_args config filename))) \<and>
   ((''-a'', None) \<in> set (read_options (tl (recordScreen_args config filename)))
      \<longleftrightarrow> \<not> RecordAudio config) \<and>
   ((''-c'', Some (Codec config)) \<in> set (read_options (tl (recordScreen_args config filename)))
      \<longleftrightarrow> Codec config \<noteq> []) \<and>
   ((\<exists>i. Suc i < length (recordScreen_args config filename) \<and>
         recordScreen_args config filename ! i = ''-c'' \<and>
         recordScreen_args config filename ! Suc i = Codec config)
      \<longleftrightarrow> Codec config \<noteq> []) \<and>
   (filename \<noteq> ''-a'' \<and> Codec config \<noteq> ''-a'' \<longrightarrow>
      (''-a'' \<in> set (recordScreen_args config filename) \<longleftrightarrow> \<not> RecordAudio config))"
proof (intro conjI)
  show "take 3 (recordScreen_args config filename) = [''wf-recorder'', ''-f'', filename]"
    by (simp add: recordScreen_args_def)
  show "(''-f'', Some filename) \<in> set (read_options (tl (recordScreen_args config filename)))"
    by (simp add: recordScreen_args_def)
  show "((''-a'', None) \<in> set (read_options (tl (recordScreen_args config filename)))
      \<longleftrightarrow> \<not> RecordAudio config)"
    by (simp add: recordScreen_args_def)
  show "((''-c'', Some (Codec config)) \<in> set (read_options (tl (recordScreen_args config filename)))
      \<longleftrightarrow> Codec config \<noteq> [])"
    by (simp add: recordScreen_args_def)
  show "((\<exists>i. Suc i < length (recordScreen_args config filename) \<and>
         recordScreen_args config filename ! i = ''-c'' \<and>
         recordScreen_args config filename ! Suc i = Codec config)
      \<longleftrightarrow> Codec config \<noteq> [])"
  proof
    assume "\<exists>i. Suc i < length (recordScreen_args config filename) \<and>
         recordScreen_args config filename ! i = ''-c'' \<and>
         recordScreen_args config filename ! Suc i = Codec config"
    then obtain i where i: "Suc i < length (recordScreen_args config filename)"
        "recordScreen_args config filename ! i = ''-c''"
        "recordScreen_args config filename ! Suc i = Codec config"
      by blast
    show "Codec config \<noteq> []"
    proof
      assume e: "Codec config = []"
      then have "i < 3" using i(1) by (simp add: recordScreen_args_def split: if_splits)
      then consider "i = 0" | "i = 1" | "i = 2" by linarith
      then show False
        using i e by cases (auto simp: recordScreen_args_def split: if_splits)
    qed
  next
    assume "Codec config \<noteq> []"
    then show "\<exists>i. Suc i < length (recordScreen_args config filename) \<and>
         recordScreen_args config filename ! i = ''-c'' \<and>
         recordScreen_args config filename ! Suc i = Codec config"
      by (intro exI[of _ 3]) (simp add: recordScreen_args_def)
  qed
  show "filename \<noteq> ''-a'' \<and> Codec config \<noteq> ''-a'' \<longrightarrow>
      (''-a'' \<in> set (recordScreen_args config filename) \<longleftrightarrow> \<not> RecordAudio config)"
    by (auto simp: recordScreen_args_def)
qed

theorem recordScreen_args_flags_witness:
  "''/rec/x.mkv'' \<noteq> ''-a'' \<and> Codec default_config \<noteq> ''-a'' \<and>
   recordScreen_args default_config ''/rec/x.mkv'' =
     [''wf-recorder'', ''-f'', ''/rec/x.mkv'', ''-c'', ''libx265'', ''-a''] \<and>
   ''-a'' \<in> set (recordScreen_args default_config ''/rec/x.mkv'') \<and>
   \<not> RecordAudio default_config \<and>
   recordScreen_args (default_config\<lparr>Codec := [], RecordAudio := True\<rparr>) ''/rec/x.mkv'' =
     [''wf-recorder'', ''-f'', ''/rec/x.mkv'']"
proof -
  have a: "''/rec/x.mkv'' \<noteq> ''-a'' \<and> Codec default_config \<noteq> ''-a''"
    by (simp add: default_config_def)
  have b: "recordScreen_args default_config ''/rec/x.mkv'' =
     [''wf-recorder'', ''-f'', ''/rec/x.mkv'', ''-c'', ''libx265'', ''-a'']"
    by (simp add: recordScreen_args_def default_config_def)
  have c: "recordScreen_args (default_config\<lparr>Codec := [], RecordAudio := True\<rparr>) ''/rec/x.mkv'' =
     [''wf-recorder'', ''-f'', ''/rec/x.mkv'']"
    by (simp add: recordScreen_args_def default_config_def)
  have d: "\<not> RecordAudio default_config"
    by (simp add: default_config_def)
  have "''-a'' \<in> set (recordScreen_args default_config ''/rec/x.mkv'')"
    using recordScreen_args_flags[of default_config "''/rec/x.mkv''"] a d by blast
  then show ?thesis using a b c d by blast
qed

section \<open>Stopping the recorder\<close>

text \<open>
  Claim C5. Let the recording timer fire before the process ends. Then the first thing
  \<^verbatim>\<open>recordScreen\<close> does is send the interrupt signal. The only bounded wait is the one
  of five seconds, and it runs out exactly when the process does not end within it; the
  kill follows at once, and after it the plain receive on \<^verbatim>\<open>done\<close>. A kill happens only
  when the signal could not be sent or the five seconds ran out. Whenever the function
  returns, the last thing it did was to receive the end of the process; it stays blocked
  exactly when the process ends neither within the five seconds nor after the kill.
\<close>

theorem stop_sequence:
  assumes "\<not> start_fails env" and "exit_before_deadline env = None"
    and "recordScreen config filename duration env = (acts, out)"
  shows "(\<exists>post. acts = [Spawn (recordScreen_args config filename), StartTimer duration,
                          TimerFired, SendSIGINT] @ post) \<and>
         (\<forall>n. GraceExpired n \<in> set acts \<longrightarrow> n = 5) \<and>
         (GraceExpired 5 \<in> set acts \<longleftrightarrow> exit_in_grace env = None) \<and>
         (exit_in_grace env = None \<longrightarrow>
            (\<exists>pre post. acts = pre @ GraceExpired 5 # Kill # post \<and>
               (post = [] \<or> (\<exists>r. post = [Done r])))) \<and>
         (Kill \<in> set acts \<longrightarrow> sigint_fails env \<or> exit_in_grace env = None) \<and>
         (\<forall>e. out = Returned e \<longrightarrow> (\<exists>r. last acts = Done r)) \<and>
         (out = Blocked \<longleftrightarrow> exit_in_grace env = None \<and> exit_after_kill env = None) \<and>
         out \<noteq> Panicked"
proof -
  let ?stopping = "[Spawn (recordScreen_args config filename), StartTimer duration, TimerFired, SendSIGINT]
       @ (if sigint_fails env then [Kill] else [])"
  show ?thesis
  proof (cases "exit_in_grace env")
    case (Some r)
    then have "acts = ?stopping @ [Done r]" "out = Returned None"
      using assms by (simp_all add: recordScreen_def Let_def)
    then show ?thesis using Some by auto
  next
    case None
    show ?thesis
    proof (cases "exit_after_kill env")
      case (Some r)
      then have a: "acts = ?stopping @ GraceExpired 5 # Kill # [Done r]" and o: "out = Returned None"
        using assms None by (simp_all add: recordScreen_def Let_def)
      have "\<exists>pre post. acts = pre @ GraceExpired 5 # Kill # post \<and> (post = [] \<or> (\<exists>r. post = [Done r]))"
        using a by blast
      then show ?thesis using a o None Some by auto
    next
      case None2: None
      then have a: "acts = ?stopping @ GraceExpired 5 # Kill # []" and o: "out = Blocked"
        using assms None by (simp_all add: recordScreen_def Let_def)
      have "\<exists>pre post. acts = pre @ GraceExpired 5 # Kill # post \<and> (post = [] \<or> (\<exists>r. post = [Done r]))"
        using a by blast
      then show ?thesis using a o None None2 by auto
    qed
  qed
qed

theorem stop_sequence_witness:
  "\<not> start_fails ignores_sigint \<and> exit_before_deadline ignores_sigint = None \<and>
   recordScreen default_config ''/rec/x.mkv'' 60 ignores_sigint =
     ([Spawn [''wf-recorder'', ''-f'', ''/rec/x.mkv'', ''-c'', ''libx265'', ''-a''], StartTimer 60,
       TimerFired, SendSIGINT, GraceExpired 5, Kill, Done ExitError], Returned None) \<and>
   GraceExpired 5 \<in> set (fst (recordScreen default_config ''/rec/x.mkv'' 60 ignores_sigint)) \<and>
   exit_in_grace ignores_sigint = None"
proof -
  have a: "\<not> start_fails ignores_sigint" and b: "exit_before_deadline ignores_sigint = None"
    and g: "exit_in_grace ignores_sigint = None"
    by (simp_all add: ignores_sigint_def)
  have r: "recordScreen default_config ''/rec/x.mkv'' 60 ignores_sigint =
     ([Spawn [''wf-recorder'', ''-f'', ''/rec/x.mkv'', ''-c'', ''libx265'', ''-a''], StartTimer 60,
       TimerFired, SendSIGINT, GraceExpired 5, Kill, Done ExitError], Returned None)"
    by (simp add: recordScreen_def recordScreen_args_def ignores_sigint_def default_config_def)
  have "GraceExpired 5 \<in> set (fst (recordScreen default_config ''/rec/x.mkv'' 60 ignores_sigint))"
    using stop_sequence[OF a b, of default_config "''/rec/x.mkv''" 60
        "fst (recordScreen default_config ''/rec/x.mkv'' 60 ignores_sigint)"
        "snd (recordScreen default_config ''/rec/x.mkv'' 60 ignores_sigint)"] g
    by simp
  then show ?thesis using a b g r by simp
qed

section \<open>One pass of the loop\<close>

lemma recordScreen_outcome:
  "snd (recordScreen config filename d env) =
     (if start_fails env then Returned (Some StartError)
      else
        (case exit_before_deadline env of
           Some r \<Rightarrow> if r \<noteq> ExitOk then Returned (Some RecorderFailed) else Returned None
         | None \<Rightarrow>
             if exit_in_grace env = None \<and> exit_after_kill env = None then Blocked
             else Returned None))"
  by (auto simp: recordScreen_def Let_def split: option.splits)

lemma loop_body_success:
  assumes "\<not> stop_requested env"
    and "recordScreen config (generateFilename config (now env)) (RecordingLength config) (proc env) = (acts, Returned None)"
  shows "\<exists>fs3 merr tail.
           SetMarker (capture env (disk st)) (generateFilename config (now env))
             attributeMarkerName attributeMarkerDefaultValue = (fs3, merr) \<and>
           fst (snd (loop_body config st env)) =
             [Recorded (generateFilename config (now env)) acts,
              MarkerSet (generateFilename config (now env)) attributeMarkerName
                attributeMarkerDefaultValue merr] @ tail \<and>
           (tail = [] \<and> (loopcounter st + 1) mod 10 \<noteq> 0 \<or>
            (\<exists>removed r. tail = [Cleanup removed r] \<and> (loopcounter st + 1) mod 10 = 0 \<and>
               (fst (snd (cleanupOldFiles config fs3)), snd (snd (cleanupOldFiles config fs3))) = (removed, r)))"
  using assms
  by (cases "SetMarker (capture env (disk st)) (generateFilename config (now env))
             attributeMarkerName attributeMarkerDefaultValue";
      cases "cleanupOldFiles config (fst (SetMarker (capture env (disk st)) (generateFilename config (now env))
             attributeMarkerName attributeMarkerDefaultValue))")
     (auto simp: loop_body_def Let_def)



section \<open>The cadence of retention\<close>

lemma cleanup_no_panic:
  assumes "0 \<le> MaxFiles config"
  shows "snd (snd (cleanupOldFiles config fs)) \<noteq> Panicked"
proof (cases "GetFilesWithMarker fs (RecordingsDir config) attributeMarkerName")
  case (Inl err)
  then show ?thesis by (simp add: cleanupOldFiles_def)
next
  case (Inr files)
  let ?sorted = "sort_Slice (modtime_less fs) files"
  have "int (length ?sorted) - MaxFiles config \<le> int (length ?sorted)"
    using assms by simp
  then have "snd (snd (remove_loop fs ?sorted 0 (int (length ?sorted) - MaxFiles config) [])) = Returned None"
    by (simp only: remove_loop_in_range snd_conv)
  then show ?thesis using Inr by (simp add: cleanupOldFiles_def Let_def)
qed

lemma loop_body_counter: "loopcounter (fst (loop_body config st env)) = loopcounter st + 1"
  by (simp add: loop_body_def Let_def split: prod.splits outcome.splits option.splits)

lemma loop_body_failure:
  assumes "\<not> stop_requested env"
    and "snd (recordScreen config (generateFilename config (now env)) (RecordingLength config) (proc env))
           \<noteq> Returned None"
  shows "\<forall>removed r. Cleanup removed r \<notin> set (fst (snd (loop_body config st env)))"
  using assms
  by (auto simp: loop_body_def Let_def split: prod.splits outcome.splits option.splits)

lemma loop_body_cleanup_iff:
  "(\<exists>removed r. Cleanup removed r \<in> set (fst (snd (loop_body config st env)))) \<longleftrightarrow>
     (\<not> stop_requested env \<and>
      snd (recordScreen config (generateFilename config (now env)) (RecordingLength config) (proc env))
        = Returned None \<and>
      (loopcounter st + 1) mod 10 = 0)"
proof (cases "stop_requested env")
  case True
  then show ?thesis by (simp add: loop_body_def Let_def)
next
  case False
  let ?rec = "recordScreen config (generateFilename config (now env)) (RecordingLength config) (proc env)"
  show ?thesis
  proof (cases "snd ?rec = Returned None")
    case ok: True
    then have r: "?rec = (fst ?rec, Returned None)" by (metis prod.collapse)
    show ?thesis
      using loop_body_success[OF False r, of st] False ok by auto
  next
    case bad: False
    then show ?thesis using loop_body_failure[OF False bad, of st] by blast
  qed
qed

lemma loop_body_steady:
  assumes "0 \<le> MaxFiles config" and "\<not> stop_requested env"
    and "snd (recordScreen config (generateFilename config (now env)) (RecordingLength config) (proc env))
           = Returned None"
  shows "snd (snd (loop_body config st env)) = Continue \<and>
         length (filter is_marker_set (fst (snd (loop_body config st env)))) = 1 \<and>
         length (filter is_cleanup (fst (snd (loop_body config st env)))) =
           (if (loopcounter st + 1) mod 10 = 0 then 1 else 0)"
proof -
  let ?f = "generateFilename config (now env)"
  let ?rec = "recordScreen config ?f (RecordingLength config) (proc env)"
  obtain fs3 merr where sm: "SetMarker (capture env (disk st)) ?f attributeMarkerName
       attributeMarkerDefaultValue = (fs3, merr)"
    by (cases "SetMarker (capture env (disk st)) ?f attributeMarkerName attributeMarkerDefaultValue")
  obtain fs4 removed cres where cl: "cleanupOldFiles config fs3 = (fs4, removed, cres)"
    by (cases "cleanupOldFiles config fs3")
  have np: "cres \<noteq> Panicked" using cleanup_no_panic[OF assms(1), of fs3] cl by simp
  have r: "?rec = (fst ?rec, Returned None)" using assms(3) by (metis prod.collapse)
  have lb: "loop_body config st env =
      (if (loopcounter st + 1) mod 10 = 0
       then (st\<lparr>loopcounter := loopcounter st + 1, disk := fs4\<rparr>,
             [Recorded ?f (fst ?rec), MarkerSet ?f attributeMarkerName attributeMarkerDefaultValue merr,
              Cleanup removed cres],
             if cres = Panicked then Panic else Continue)
       else (st\<lparr>loopcounter := loopcounter st + 1, disk := fs3\<rparr>,
             [Recorded ?f (fst ?rec), MarkerSet ?f attributeMarkerName attributeMarkerDefaultValue merr],
             Continue))"
    unfolding loop_body_def Let_def
    by (subst r) (simp add: assms(2) sm cl)
  show ?thesis
    unfolding lb using np by simp
qed

lemma div10_step: "(n + 1) div 10 - n div 10 = (if (n + 1) mod 10 = 0 then 1 else 0)" for n :: int
  by presburger

lemma run_loop_steady:
  assumes "0 \<le> MaxFiles config"
  shows "\<forall>e\<in>set envs. \<not> stop_requested e \<and>
           snd (recordScreen config (generateFilename config (now e)) (RecordingLength config) (proc e))
             = Returned None \<Longrightarrow>
         snd (snd (run_loop config st envs)) = Continue \<and>
         loopcounter (fst (run_loop config st envs)) = loopcounter st + int (length envs) \<and>
         length (filter is_marker_set (fst (snd (run_loop config st envs)))) = length envs \<and>
         int (length (filter is_cleanup (fst (snd (run_loop config st envs))))) =
           (loopcounter st + int (length envs)) div 10 - loopcounter st div 10"
proof (induction envs arbitrary: st)
  case Nil
  show ?case by simp
next
  case (Cons env envs)
  obtain st1 evs1 c1 where b: "loop_body config st env = (st1, evs1, c1)"
    by (cases "loop_body config st env")
  have e: "\<not> stop_requested env"
      "snd (recordScreen config (generateFilename config (now env)) (RecordingLength config) (proc env))
         = Returned None"
    using Cons.prems by simp_all
  have s: "c1 = Continue" "length (filter is_marker_set evs1) = 1"
      "length (filter is_cleanup evs1) = (if (loopcounter st + 1) mod 10 = 0 then 1 else 0)"
    using loop_body_steady[OF assms e, of st] b by simp_all
  have cnt: "loopcounter st1 = loopcounter st + 1"
    using loop_body_counter[of config st env] b by simp
  obtain st2 evs2 c2 where r: "run_loop config st1 envs = (st2, evs2, c2)"
    by (cases "run_loop config st1 envs")
  have IH: "c2 = Continue" "loopcounter st2 = loopcounter st1 + int (length envs)"
      "length (filter is_marker_set evs2) = length envs"
      "int (length (filter is_cleanup evs2)) =
         (loopcounter st1 + int (length envs)) div 10 - loopcounter st1 div 10"
    using Cons.IH[of st1] Cons.prems r by simp_all
  have whole: "run_loop config st (env # envs) = (st2, evs1 @ evs2, c2)"
    using b s(1) r by simp
  have "int (length (filter is_cleanup (evs1 @ evs2))) =
          (loopcounter st + 1) div 10 - loopcounter st div 10 +
          ((loopcounter st + 1 + int (length envs)) div 10 - (loopcounter st + 1) div 10)"
    using s(3) IH(4) cnt div10_step[of "loopcounter st"] by simp
  then show ?case
    unfolding whole using IH(1,2,3) s(2) cnt by simp
qed

text \<open>
  Claim C6, as the code has it. Every pass of the loop adds one to the counter, whether
  its recording succeeds, fails or the pass is the one that sees the stop request. A
  pass runs the retention cleanup exactly when it is not a stop, its recording returned
  no error and the counter, after the increment, is a multiple of 10. When no recording
  fails (and \<open>MaxFiles\<close> is not negative), the loop is still running after any number
  \<open>n\<close> of passes, the counter is \<open>n\<close>, \<open>n\<close> files have been handed to \<^verbatim>\<open>SetMarker\<close>
  and the cleanup has run \<open>n div 10\<close> times: after every tenth completed cycle.
\<close>

theorem cleanup_cadence:
  "loopcounter (fst (loop_body config st env)) = loopcounter st + 1 \<and>
   ((\<exists>removed r. Cleanup removed r \<in> set (fst (snd (loop_body config st env)))) \<longleftrightarrow>
      (\<not> stop_requested env \<and>
       snd (recordScreen config (generateFilename config (now env)) (RecordingLength config) (proc env))
         = Returned None \<and>
       (loopcounter st + 1) mod 10 = 0)) \<and>
   (0 \<le> MaxFiles config \<and>
    (\<forall>e\<in>set envs. \<not> stop_requested e \<and>
       snd (recordScreen config (generateFilename config (now e)) (RecordingLength config) (proc e))
         = Returned None) \<longrightarrow>
      snd (snd (Start config False fs envs)) = Continue \<and>
      loopcounter (fst (Start config False fs envs)) = int (length envs) \<and>
      length (filter is_marker_set (fst (snd (Start config False fs envs)))) = length envs \<and>
      length (filter is_cleanup (fst (snd (Start config False fs envs)))) = length envs div 10)"
proof (intro conjI impI)
  show "loopcounter (fst (loop_body config st env)) = loopcounter st + 1"
    by (rule loop_body_counter)
  show "(\<exists>removed r. Cleanup removed r \<in> set (fst (snd (loop_body config st env)))) \<longleftrightarrow>
      (\<not> stop_requested env \<and>
       snd (recordScreen config (generateFilename config (now env)) (RecordingLength config) (proc env))
         = Returned None \<and>
       (loopcounter st + 1) mod 10 = 0)"
    by (rule loop_body_cleanup_iff)
next
  assume h: "0 \<le> MaxFiles config \<and>
    (\<forall>e\<in>set envs. \<not> stop_requested e \<and>
       snd (recordScreen config (generateFilename config (now e)) (RecordingLength config) (proc e))
         = Returned None)"
  let ?st0 = "\<lparr>loopcounter = 0, disk = fs\<rparr>"
  have st: "Start config False fs envs = run_loop config ?st0 envs"
    by (simp add: Start_def)
  have r: "snd (snd (run_loop config ?st0 envs)) = Continue \<and>
         loopcounter (fst (run_loop config ?st0 envs)) = loopcounter ?st0 + int (length envs) \<and>
         length (filter is_marker_set (fst (snd (run_loop config ?st0 envs)))) = length envs \<and>
         int (length (filter is_cleanup (fst (snd (run_loop config ?st0 envs))))) =
           (loopcounter ?st0 + int (length envs)) div 10 - loopcounter ?st0 div 10"
    using h by (intro run_loop_steady) simp_all
  show "snd (snd (Start config False fs envs)) = Continue"
    and "loopcounter (fst (Start config False fs envs)) = int (length envs)"
    and "length (filter is_marker_set (fst (snd (Start config False fs envs)))) = length envs"
    using r st by simp_all
  have "int (length (filter is_cleanup (fst (snd (Start config False fs envs))))) =
          int (length envs) div 10"
    using r st by simp
  then show "length (filter is_cleanup (fst (snd (Start config False fs envs)))) = length envs div 10"
    by (metis nat_int zdiv_int of_nat_numeral)
qed


theorem cleanup_cadence_witness:
  "0 \<le> MaxFiles default_config \<and>
   \<not> stop_requested (pass stops_on_request 3) \<and>
   snd (snd (Start default_config False three_recordings (map (pass stops_on_request) [0..<10])))
     = Continue \<and>
   loopcounter (fst (Start default_config False three_recordings (map (pass stops_on_request) [0..<10])))
     = 10 \<and>
   length (filter is_marker_set
     (fst (snd (Start default_config False three_recordings (map (pass stops_on_request) [0..<10])))))
     = 10 \<and>
   length (filter is_cleanup
     (fst (snd (Start default_config False three_recordings (map (pass stops_on_request) [0..<10])))))
     = 1"
proof -
  have cap: "0 \<le> MaxFiles default_config"
    by (simp add: default_config_def)
  have ok: "\<forall>e\<in>set (map (pass stops_on_request) [0..<10]). \<not> stop_requested e \<and>
       snd (recordScreen default_config (generateFilename default_config (now e))
              (RecordingLength default_config) (proc e)) = Returned None"
    by (simp add: pass_def recordScreen_outcome stops_on_request_def)
  have s: "\<not> stop_requested (pass stops_on_request 3)"
    by (simp add: pass_def)
  have len: "length (map (pass stops_on_request) [0..<10]) = 10"
    by simp
  have ten: "(10::nat) div 10 = 1" "int 10 = 10"
    by simp_all
  have "snd (snd (Start default_config False three_recordings (map (pass stops_on_request) [0..<10])))
          = Continue \<and>
        loopcounter (fst (Start default_config False three_recordings (map (pass stops_on_request) [0..<10])))
          = int (length (map (pass stops_on_request) [0..<10])) \<and>
        length (filter is_marker_set
          (fst (snd (Start default_config False three_recordings (map (pass stops_on_request) [0..<10])))))
          = length (map (pass stops_on_request) [0..<10]) \<and>
        length (filter is_cleanup
          (fst (snd (Start default_config False three_recordings (map (pass stops_on_request) [0..<10])))))
          = length (map (pass stops_on_request) [0..<10]) div 10"
    using cleanup_cadence[of default_config "\<lparr>loopcounter = 0, disk = three_recordings\<rparr>"
        "pass stops_on_request 3" "map (pass stops_on_request) [0..<10]" three_recordings]
      cap ok
    by blast
  then show ?thesis
    unfolding len ten using cap s by blast
qed

text \<open>
  Claim C6 as the spec words it counts completed cycles. Let the first recording fail
  (the recorder exits with an error before the timer) and the next nine succeed. The
  counter is 10 at the end of the tenth pass, so the cleanup runs there: once, after nine
  completed cycles.
\<close>

theorem cleanup_cadence_counterexample:
  "tally (fst (snd (Start keep_two False three_recordings
            (pass crashes_early 0 # map (pass stops_on_request) [1..<10])))) = (9, 1)"
  by code_simp

end
